theory Spec2Isabelle
  imports Main "HOL-Library.Sublist"
begin

section \<open>The XHR stream reader of closure/goog/net/streams/xhrstreamreader.js\<close>

text \<open>
  A shallow embedding of the class \<^verbatim>\<open>XhrStreamReader\<close>. The reader's private members keep
  their names without the trailing underscore (\<^verbatim>\<open>this.status_\<close> is the field \<open>status\<close>,
  \<^verbatim>\<open>updateStatus_\<close> is \<open>updateStatus\<close>), because a constant's name cannot end in an
  underscore. Mutation is explicit state passing; a JavaScript exception is the result
  \<open>Threw\<close>, which carries the state the reader had when the exception was thrown.
  Calls of \<^verbatim>\<open>googLog\<close> are left out: they change nothing the reader or its callers read.
\<close>

subsection \<open>Enumerations\<close>

text \<open>The enum \<^verbatim>\<open>XhrStreamReaderStatus\<close> (lines 386-431) and its numeric values.\<close>

datatype XhrStreamReaderStatus =
  INIT | ACTIVE | SUCCESS | XHR_ERROR | NO_DATA | BAD_DATA | HANDLER_EXCEPTION | TIMEOUT | CANCELLED

fun status_num :: "XhrStreamReaderStatus \<Rightarrow> nat" where
  "status_num INIT = 0"
| "status_num ACTIVE = 1"
| "status_num SUCCESS = 2"
| "status_num XHR_ERROR = 3"
| "status_num NO_DATA = 4"
| "status_num BAD_DATA = 5"
| "status_num HANDLER_EXCEPTION = 6"
| "status_num TIMEOUT = 7"
| "status_num CANCELLED = 8"

text \<open>
  Modelled from the spec: \<^verbatim>\<open>goog.net.XmlHttp.ReadyState\<close> is not among the sources. The spec
  gives the ready-state as the ordinal uninitialized / opened / headers-received /
  loading-with-partial-body / complete; the reader compares it with \<^verbatim>\<open>INTERACTIVE\<close> and
  \<^verbatim>\<open>COMPLETE\<close>.
\<close>

datatype ReadyState = UNINITIALIZED | LOADING | LOADED | INTERACTIVE | COMPLETE

fun ReadyState_num :: "ReadyState \<Rightarrow> nat" where
  "ReadyState_num UNINITIALIZED = 0"
| "ReadyState_num LOADING = 1"
| "ReadyState_num LOADED = 2"
| "ReadyState_num INTERACTIVE = 3"
| "ReadyState_num COMPLETE = 4"

text \<open>
  Modelled from the spec: \<^verbatim>\<open>goog.net.ErrorCode\<close> is not among the sources. The spec gives
  the last error classification as none / timeout / aborted / other; the reader tests it
  for \<^verbatim>\<open>TIMEOUT\<close> and \<^verbatim>\<open>ABORT\<close> only.
\<close>

datatype ErrorCode = ErrorCode_NO_ERROR | ErrorCode_TIMEOUT | ErrorCode_ABORT | ErrorCode_OTHER

text \<open>
  Modelled from the spec: \<^verbatim>\<open>goog.net.HttpStatus\<close> is not among the sources. The spec
  classifies the numeric status codes 200 and 206 as successful.
\<close>

definition HttpStatus_OK :: int where
  "HttpStatus_OK = 200"

definition HttpStatus_PARTIAL_CONTENT :: int where
  "HttpStatus_PARTIAL_CONTENT = 206"

subsection \<open>Strings\<close>

text \<open>
  Header values are strings of single-byte characters (code units 0 to 255).
  \<^verbatim>\<open>toLowerCase\<close> maps the letters A to Z to a to z and the capital letters of Latin-1
  (code units 192 to 222, except the multiplication sign 215) to the letters 32 places
  further on; it leaves every other character as it is.
\<close>

definition toLowerCase_char :: "char \<Rightarrow> char" where
  "toLowerCase_char c =
     (case map_of (zip ''ABCDEFGHIJKLMNOPQRSTUVWXYZ'' ''abcdefghijklmnopqrstuvwxyz'') c of
        Some l \<Rightarrow> l
      | None \<Rightarrow>
          if (192 :: nat) \<le> of_char c \<and> (of_char c :: nat) \<le> 222 \<and> (of_char c :: nat) \<noteq> 215
          then char_of (of_char c + 32 :: nat)
          else c)"

definition toLowerCase :: "string \<Rightarrow> string" where
  "toLowerCase s = map toLowerCase_char s"

text \<open>
  Modelled from the spec: \<^verbatim>\<open>goog.string.startsWith\<close> is not among the sources. The spec
  says "content type starts with": the second argument is a prefix of the first.
\<close>

definition startsWith :: "string \<Rightarrow> string \<Rightarrow> bool" where
  "startsWith str pre = (take (length pre) str = pre)"

subsection \<open>Decoders, callbacks and the transport\<close>

text \<open>
  The four parser classes are not among the sources. A parser object is its class and the
  slices it has been given so far; what \<^verbatim>\<open>parse\<close> does with a new slice is a parameter
  \<open>D\<close> of the reader's functions: it throws, returns \<^verbatim>\<open>null\<close>, or returns an array of
  messages.
\<close>

datatype parser_kind = PbJsonStreamParser | JsonStreamParser | PbStreamParser | Base64PbStreamParser

record StreamParser =
  kind :: parser_kind
  fed :: "string list"

datatype 'm parse_result = ParseThrows | ParseNull | ParseMessages "'m list"

type_synonym 'm decoder = "parser_kind \<Rightarrow> string list \<Rightarrow> string \<Rightarrow> 'm parse_result"

definition new_parser :: "parser_kind \<Rightarrow> StreamParser" where
  "new_parser k = \<lparr>kind = k, fed = []\<rparr>"

text \<open>
  What the reader does to its collaborators, in order: every assignment to
  \<^verbatim>\<open>this.status_\<close>, every call of the status handler (with the value \<^verbatim>\<open>getStatus()\<close> has
  during the call), of \<^verbatim>\<open>getParserByResponseHeader_\<close> (with the parser class it selects),
  of \<^verbatim>\<open>parser_.parse\<close>, of the data handler, of the transport's
  \<^verbatim>\<open>abort\<close> (with the value \<^verbatim>\<open>this.xhr_\<close> has during the call: what a notification
  re-entering the reader from inside \<^verbatim>\<open>abort\<close> would be compared with) and \<^verbatim>\<open>dispose\<close>,
  and every exception that leaves \<^verbatim>\<open>readyStateChangeHandler_\<close>.
\<close>

datatype 'm event =
    StatusSet XhrStreamReaderStatus
  | StatusHandlerCalled XhrStreamReaderStatus
  | SelectionComputed "parser_kind option"
  | ParseCalled string
  | DataHandlerCalled "'m list"
  | AbortCalled nat "nat option"
  | DisposeCalled nat
  | ExceptionPropagated

text \<open>
  A callback returns or throws. Which of the two may depend on everything that has
  happened to the reader so far, so a callback is a function of the history (and the data
  handler of its argument too). A callback does not call back into the reader or its
  transport, and the transport's \<^verbatim>\<open>abort\<close> and \<^verbatim>\<open>dispose\<close> return.
\<close>

datatype handler_result = Returns | Throws

text \<open>
  A \<^verbatim>\<open>READY_STATE_CHANGE\<close> notification: the transport it comes from (\<^verbatim>\<open>event.target\<close>,
  a transport being a number) and what that transport answers during the notification to
  \<^verbatim>\<open>getReadyState\<close>, \<^verbatim>\<open>getLastErrorCode\<close>, \<^verbatim>\<open>getStatus\<close>, \<^verbatim>\<open>getResponseText\<close> and to
  \<^verbatim>\<open>getStreamingResponseHeader\<close> for the content type and the content transfer
  encoding (\<open>None\<close> is \<^verbatim>\<open>null\<close>). The response text is the list of its code units, which
  is what \<^verbatim>\<open>length\<close> and \<^verbatim>\<open>substr\<close> count.
\<close>

record XhrIo_event =
  target :: nat
  readyState :: ReadyState
  lastErrorCode :: ErrorCode
  statusCode :: int
  responseText :: string
  contentType :: "string option"
  contentTransferEncoding :: "string option"

subsection \<open>The reader\<close>

text \<open>
  The fields of the constructor (lines 56-115). \<open>listening\<close> says whether
  \<^verbatim>\<open>eventHandler_\<close> still holds the listener registered at line 113.
\<close>

record 'm XhrStreamReader =
  xhr :: "nat option"
  parser :: "StreamParser option"
  pos :: nat
  status :: XhrStreamReaderStatus
  statusHandler :: "('m event list \<Rightarrow> handler_result) option"
  dataHandler :: "('m list \<Rightarrow> 'm event list \<Rightarrow> handler_result) option"
  listening :: bool
  history :: "'m event list"

datatype 'm completion = Returned "'m XhrStreamReader" | Threw "'m XhrStreamReader"

fun state_of :: "'m completion \<Rightarrow> 'm XhrStreamReader" where
  "state_of (Returned r) = r"
| "state_of (Threw r) = r"

fun threw :: "'m completion \<Rightarrow> bool" where
  "threw (Returned r) = False"
| "threw (Threw r) = True"

fun andThen :: "'m completion \<Rightarrow> ('m XhrStreamReader \<Rightarrow> 'm completion) \<Rightarrow> 'm completion" where
  "andThen (Returned r) k = k r"
| "andThen (Threw r) k = Threw r"

definition emit :: "'m event \<Rightarrow> 'm XhrStreamReader \<Rightarrow> 'm XhrStreamReader" where
  "emit e r = r\<lparr>history := history r @ [e]\<rparr>"

definition new_XhrStreamReader :: "nat \<Rightarrow> 'm XhrStreamReader" where
  "new_XhrStreamReader x =
     \<lparr>xhr = Some x, parser = None, pos = 0, status = INIT, statusHandler = None,
      dataHandler = None, listening = True, history = []\<rparr>"

definition getStatus :: "'m XhrStreamReader \<Rightarrow> XhrStreamReaderStatus" where
  "getStatus r = status r"

definition getXhr :: "'m XhrStreamReader \<Rightarrow> nat option" where
  "getXhr r = xhr r"

definition setStatusHandler ::
  "('m event list \<Rightarrow> handler_result) \<Rightarrow> 'm XhrStreamReader \<Rightarrow> 'm XhrStreamReader" where
  "setStatusHandler handler r = r\<lparr>statusHandler := Some handler\<rparr>"

definition setDataHandler ::
  "('m list \<Rightarrow> 'm event list \<Rightarrow> handler_result) \<Rightarrow> 'm XhrStreamReader \<Rightarrow> 'm XhrStreamReader" where
  "setDataHandler handler r = r\<lparr>dataHandler := Some handler\<rparr>"

text \<open>\<^verbatim>\<open>updateStatus_\<close> (lines 292-301).\<close>

definition updateStatus :: "XhrStreamReaderStatus \<Rightarrow> 'm XhrStreamReader \<Rightarrow> 'm completion" where
  "updateStatus s r =
     (let current = status r in
      if current \<noteq> s then
        (let r1 = emit (StatusSet s) (r\<lparr>status := s\<rparr>) in
         case statusHandler r1 of
           None \<Rightarrow> Returned r1
         | Some h \<Rightarrow>
             (let r2 = emit (StatusHandlerCalled (status r1)) r1 in
              case h (history r2) of
                Returns \<Rightarrow> Returned r2
              | Throws \<Rightarrow> Threw r2))
      else Returned r)"

text \<open>\<^verbatim>\<open>clear_\<close> (lines 309-320).\<close>

definition clear :: "'m XhrStreamReader \<Rightarrow> 'm XhrStreamReader" where
  "clear r =
     (let r1 = r\<lparr>listening := False\<rparr> in
      case xhr r1 of
        None \<Rightarrow> r1
      | Some x \<Rightarrow>
          (let r2 = r1\<lparr>xhr := None\<rparr>;
               r3 = emit (AbortCalled x (xhr r2)) r2;
               r4 = emit (DisposeCalled x) r3
           in r4))"

text \<open>\<^verbatim>\<open>getParserByResponseHeader_\<close> (lines 240-275). An empty string is falsy, as \<^verbatim>\<open>null\<close> is.\<close>

definition getParserByResponseHeader :: "XhrIo_event \<Rightarrow> StreamParser option" where
  "getParserByResponseHeader ev =
     (case contentType ev of
        None \<Rightarrow> None
      | Some ct0 \<Rightarrow>
          if ct0 = [] then None
          else
            (let ct = toLowerCase ct0 in
             if startsWith ct ''application/json'' then
               (if startsWith ct ''application/json+protobuf''
                then Some (new_parser PbJsonStreamParser)
                else Some (new_parser JsonStreamParser))
             else if startsWith ct ''application/x-protobuf'' then
               (case contentTransferEncoding ev of
                  None \<Rightarrow> Some (new_parser PbStreamParser)
                | Some encoding \<Rightarrow>
                    if encoding = [] then Some (new_parser PbStreamParser)
                    else if toLowerCase encoding = ''base64''
                    then Some (new_parser Base64PbStreamParser)
                    else None)
             else None))"

text \<open>
  The body of the \<^verbatim>\<open>try\<close> of lines 203-209: the parser is given the new slice, and a
  result other than \<^verbatim>\<open>null\<close> goes to the data handler, if there is one. Calling
  \<^verbatim>\<open>parse\<close> on \<^verbatim>\<open>null\<close> throws.
\<close>

definition parseAndDeliver :: "'m decoder \<Rightarrow> string \<Rightarrow> 'm XhrStreamReader \<Rightarrow> 'm completion" where
  "parseAndDeliver D newData r =
     (case parser r of
        None \<Rightarrow> Threw r
      | Some p \<Rightarrow>
          (let r1 = emit (ParseCalled newData)
                      (r\<lparr>parser := Some (p\<lparr>fed := fed p @ [newData]\<rparr>)\<rparr>) in
           case D (kind p) (fed p) newData of
             ParseThrows \<Rightarrow> Threw r1
           | ParseNull \<Rightarrow> Returned r1
           | ParseMessages messages \<Rightarrow>
               (case dataHandler r1 of
                  None \<Rightarrow> Returned r1
                | Some h \<Rightarrow>
                    (let r2 = emit (DataHandlerCalled messages) r1 in
                     case h messages (history r2) of
                       Returns \<Rightarrow> Returned r2
                     | Throws \<Rightarrow> Threw r2))))"

text \<open>The end of \<^verbatim>\<open>onReadyStateChanged_\<close> (lines 219-229).\<close>

definition finishNotification :: "XhrIo_event \<Rightarrow> 'm XhrStreamReader \<Rightarrow> 'm completion" where
  "finishNotification ev r =
     (if readyState ev = COMPLETE then
        andThen
          (if length (responseText ev) = 0 then updateStatus NO_DATA r
           else updateStatus SUCCESS r)
          (\<lambda>r1. Returned (clear r1))
      else updateStatus ACTIVE r)"

text \<open>
  \<^verbatim>\<open>onReadyStateChanged_\<close> (lines 150-230). It reads the transport through \<^verbatim>\<open>this.xhr_\<close>,
  which throws when that is \<^verbatim>\<open>null\<close>; its only caller has checked that \<^verbatim>\<open>this.xhr_\<close> is
  the notification's transport, so the values read are those of the notification.
\<close>

definition onReadyStateChanged ::
  "'m decoder \<Rightarrow> XhrIo_event \<Rightarrow> 'm XhrStreamReader \<Rightarrow> 'm completion" where
  "onReadyStateChanged D ev r =
     (case xhr r of
        None \<Rightarrow> Threw r
      | Some _ \<Rightarrow>
          if ReadyState_num (readyState ev) < ReadyState_num INTERACTIVE \<or>
             (readyState ev = INTERACTIVE \<and> responseText ev = [])
          then Returned r
          else
            (let successful =
                   (statusCode ev = HttpStatus_OK \<or> statusCode ev = HttpStatus_PARTIAL_CONTENT)
             in
             andThen
               (if readyState ev = COMPLETE then
                  (if lastErrorCode ev = ErrorCode_TIMEOUT then updateStatus TIMEOUT r
                   else if lastErrorCode ev = ErrorCode_ABORT then updateStatus CANCELLED r
                   else if \<not> successful then updateStatus XHR_ERROR r
                   else Returned r)
                else Returned r)
               (\<lambda>r1.
                  andThen
                    (if parser r1 = None then
                       (let selected = getParserByResponseHeader ev;
                            r2 = emit (SelectionComputed (map_option kind selected))
                                   (r1\<lparr>parser := selected\<rparr>)
                        in
                        if parser r2 = None then updateStatus BAD_DATA r2 else Returned r2)
                     else Returned r1)
                    (\<lambda>r3.
                       if status_num (status r3) > status_num SUCCESS then Returned (clear r3)
                       else if length (responseText ev) > pos r3 then
                         (let newData = drop (pos r3) (responseText ev);
                              r4 = r3\<lparr>pos := length (responseText ev)\<rparr>
                          in
                          case parseAndDeliver D newData r4 of
                            Returned r5 \<Rightarrow> finishNotification ev r5
                          | Threw r5 \<Rightarrow>
                              andThen (updateStatus BAD_DATA r5) (\<lambda>r6. Returned (clear r6)))
                       else finishNotification ev r3))))"

text \<open>\<^verbatim>\<open>readyStateChangeHandler_\<close> (lines 360-378).\<close>

definition readyStateChangeHandler ::
  "'m decoder \<Rightarrow> XhrIo_event \<Rightarrow> 'm XhrStreamReader \<Rightarrow> 'm completion" where
  "readyStateChangeHandler D ev r =
     (case (if Some (target ev) = xhr r then onReadyStateChanged D ev r else Returned r) of
        Returned r1 \<Rightarrow> Returned r1
      | Threw r1 \<Rightarrow> andThen (updateStatus HANDLER_EXCEPTION r1) (\<lambda>r2. Returned (clear r2)))"

text \<open>
  A notification reaches \<^verbatim>\<open>readyStateChangeHandler_\<close> while the listener of line 113 is
  registered. An exception that leaves the handler goes to the transport's event
  delivery; the reader keeps the state it had.
\<close>

definition deliver :: "'m decoder \<Rightarrow> XhrIo_event \<Rightarrow> 'm XhrStreamReader \<Rightarrow> 'm XhrStreamReader" where
  "deliver D ev r =
     (if listening r then
        (case readyStateChangeHandler D ev r of
           Returned r1 \<Rightarrow> r1
         | Threw r1 \<Rightarrow> emit ExceptionPropagated r1)
      else r)"

primrec run :: "'m decoder \<Rightarrow> XhrIo_event list \<Rightarrow> 'm XhrStreamReader \<Rightarrow> 'm XhrStreamReader" where
  "run D [] r = r"
| "run D (ev # evs) r = run D evs (deliver D ev r)"

text \<open>A reader as its owner sets it up: constructed, then given the handlers it wants.\<close>

definition reader_with ::
  "nat \<Rightarrow> ('m event list \<Rightarrow> handler_result) option \<Rightarrow>
   ('m list \<Rightarrow> 'm event list \<Rightarrow> handler_result) option \<Rightarrow> 'm XhrStreamReader" where
  "reader_with x sh dh =
     (let r0 = new_XhrStreamReader x;
          r1 = (case sh of None \<Rightarrow> r0 | Some h \<Rightarrow> setStatusHandler h r0)
      in case dh of None \<Rightarrow> r1 | Some h \<Rightarrow> setDataHandler h r1)"

section \<open>Observations on a history\<close>

definition post :: "'m completion \<Rightarrow> ('m XhrStreamReader \<Rightarrow> bool) \<Rightarrow> ('m XhrStreamReader \<Rightarrow> bool) \<Rightarrow> bool" where
  "post c Q E = (case c of Returned r \<Rightarrow> Q r | Threw r \<Rightarrow> E r)"

text \<open>
  The condition of lines 160-161, under which \<^verbatim>\<open>onReadyStateChanged_\<close> returns at once, and
  the status that lines 170-178 assign, if any.
\<close>

definition deferred :: "XhrIo_event \<Rightarrow> bool" where
  "deferred ev =
     (ReadyState_num (readyState ev) < ReadyState_num INTERACTIVE \<or>
      (readyState ev = INTERACTIVE \<and> responseText ev = []))"

definition classification :: "XhrIo_event \<Rightarrow> XhrStreamReaderStatus option" where
  "classification ev =
     (if readyState ev = COMPLETE then
        (if lastErrorCode ev = ErrorCode_TIMEOUT then Some TIMEOUT
         else if lastErrorCode ev = ErrorCode_ABORT then Some CANCELLED
         else if \<not> (statusCode ev = HttpStatus_OK \<or> statusCode ev = HttpStatus_PARTIAL_CONTENT)
         then Some XHR_ERROR
         else None)
      else None)"

text \<open>What a history says about each collaborator.\<close>

fun status_writes :: "'m event list \<Rightarrow> XhrStreamReaderStatus list" where
  "status_writes [] = []"
| "status_writes (StatusSet s # es) = s # status_writes es"
| "status_writes (e # es) = status_writes es"

fun status_handler_calls :: "'m event list \<Rightarrow> XhrStreamReaderStatus list" where
  "status_handler_calls [] = []"
| "status_handler_calls (StatusHandlerCalled s # es) = s # status_handler_calls es"
| "status_handler_calls (e # es) = status_handler_calls es"

fun selections :: "'m event list \<Rightarrow> parser_kind option list" where
  "selections [] = []"
| "selections (SelectionComputed k # es) = k # selections es"
| "selections (e # es) = selections es"

fun parse_calls :: "'m event list \<Rightarrow> string list" where
  "parse_calls [] = []"
| "parse_calls (ParseCalled d # es) = d # parse_calls es"
| "parse_calls (e # es) = parse_calls es"

fun data_handler_calls :: "'m event list \<Rightarrow> 'm list list" where
  "data_handler_calls [] = []"
| "data_handler_calls (DataHandlerCalled ms # es) = ms # data_handler_calls es"
| "data_handler_calls (e # es) = data_handler_calls es"

fun abort_calls :: "'m event list \<Rightarrow> nat list" where
  "abort_calls [] = []"
| "abort_calls (AbortCalled x held # es) = x # abort_calls es"
| "abort_calls (e # es) = abort_calls es"

fun dispose_calls :: "'m event list \<Rightarrow> nat list" where
  "dispose_calls [] = []"
| "dispose_calls (DisposeCalled x # es) = x # dispose_calls es"
| "dispose_calls (e # es) = dispose_calls es"

text \<open>\<^verbatim>\<open>abort\<close> was entered with \<^verbatim>\<open>this.xhr_\<close> already \<^verbatim>\<open>null\<close>.\<close>

fun aborted_detached :: "'m event \<Rightarrow> bool" where
  "aborted_detached (AbortCalled x held) = (held = None)"
| "aborted_detached e = True"

text \<open>A status strictly greater than \<^verbatim>\<open>SUCCESS\<close>, the test of line 194.\<close>

definition terminal_failure :: "XhrStreamReaderStatus \<Rightarrow> bool" where
  "terminal_failure s = (status_num SUCCESS < status_num s)"

text \<open>Every two neighbours of \<open>a # xs\<close> are related by \<open>R\<close>.\<close>

fun chain :: "('a \<Rightarrow> 'a \<Rightarrow> bool) \<Rightarrow> 'a \<Rightarrow> 'a list \<Rightarrow> bool" where
  "chain R a [] = True"
| "chain R a (b # bs) = (R a b \<and> chain R b bs)"

text \<open>
  The invariant behind the teardown: the listener is registered exactly while the
  transport is held; a held transport is the one given to the constructor and has seen no
  \<^verbatim>\<open>abort\<close> and no \<^verbatim>\<open>dispose\<close>; a released one has seen one of each.
\<close>

definition teardown_once :: "nat \<Rightarrow> 'm XhrStreamReader \<Rightarrow> bool" where
  "teardown_once x r =
     (listening r = (xhr r \<noteq> None) \<and>
      (case xhr r of
         None \<Rightarrow> abort_calls (history r) = [x] \<and> dispose_calls (history r) = [x]
       | Some y \<Rightarrow> y = x \<and> abort_calls (history r) = [] \<and> dispose_calls (history r) = []) \<and>
      list_all aborted_detached (history r))"

text \<open>
  The invariant behind the status handler's calls: with a handler registered, the calls
  are the assignments; each assignment changes the status; the last one is the status.
\<close>

definition notified_each_change :: "'m XhrStreamReader \<Rightarrow> bool" where
  "notified_each_change r =
     (status_handler_calls (history r) =
        (if statusHandler r = None then [] else status_writes (history r)) \<and>
      chain (\<noteq>) INIT (status_writes (history r)) \<and>
      last (INIT # status_writes (history r)) = status r)"

text \<open>
  Every event after the first assignment of a status greater than \<^verbatim>\<open>SUCCESS\<close> satisfies
  \<open>P\<close>.
\<close>

fun after_failure :: "('m event \<Rightarrow> bool) \<Rightarrow> 'm event list \<Rightarrow> bool" where
  "after_failure P [] = True"
| "after_failure P (StatusSet s # es) =
     (if terminal_failure s then list_all P es else after_failure P es)"
| "after_failure P (e # es) = after_failure P es"

text \<open>Neither a call of the data handler nor a status that is not a failure.\<close>

fun failed_and_silent :: "'m event \<Rightarrow> bool" where
  "failed_and_silent (DataHandlerCalled ms) = False"
| "failed_and_silent (StatusSet s) = terminal_failure s"
| "failed_and_silent e = True"

text \<open>Not a call of the parser.\<close>

fun not_decoding :: "'m event \<Rightarrow> bool" where
  "not_decoding (ParseCalled d) = False"
| "not_decoding e = True"

text \<open>Both at once.\<close>

fun quiet :: "'m event \<Rightarrow> bool" where
  "quiet (DataHandlerCalled ms) = False"
| "quiet (ParseCalled d) = False"
| "quiet (StatusSet s) = terminal_failure s"
| "quiet e = True"

text \<open>
  The invariant behind both: after a failure the history is quiet, and a failure in the
  history is a failure in the status.
\<close>

definition failure_absorbed :: "'m XhrStreamReader \<Rightarrow> bool" where
  "failure_absorbed r =
     (after_failure quiet (history r) \<and>
      (list_ex terminal_failure (status_writes (history r)) \<longrightarrow> terminal_failure (status r)))"

text \<open>
  The words of the first claim about the status: once a status greater than
  \<^verbatim>\<open>SUCCESS\<close> has been assigned, every later assignment assigns the same value.
\<close>

fun failure_status_final :: "XhrStreamReaderStatus list \<Rightarrow> bool" where
  "failure_status_final [] = True"
| "failure_status_final (s # ss) =
     (if terminal_failure s then list_all (\<lambda>t. t = s) ss else failure_status_final ss)"

text \<open>
  The assignments of the status that the reader makes by design: one that does not lower
  it, and one that replaces \<^verbatim>\<open>TIMEOUT\<close> or \<^verbatim>\<open>CANCELLED\<close> by \<^verbatim>\<open>BAD_DATA\<close> or
  \<^verbatim>\<open>HANDLER_EXCEPTION\<close>.
\<close>

definition allowed_write :: "XhrStreamReaderStatus \<Rightarrow> XhrStreamReaderStatus \<Rightarrow> bool" where
  "allowed_write a b =
     (status_num a \<le> status_num b \<or>
      ((a = TIMEOUT \<or> a = CANCELLED) \<and> (b = BAD_DATA \<or> b = HANDLER_EXCEPTION)))"

text \<open>
  The part of a history that precedes the first exception to leave
  \<^verbatim>\<open>readyStateChangeHandler_\<close>: all of it, when there is none.
\<close>

fun before_escape :: "'m event list \<Rightarrow> 'm event list" where
  "before_escape [] = []"
| "before_escape (ExceptionPropagated # es) = []"
| "before_escape (e # es) = e # before_escape es"

text \<open>The history's assignments are of this kind and end in the reader's status.\<close>

definition status_tracked :: "'m XhrStreamReader \<Rightarrow> bool" where
  "status_tracked r =
     (chain allowed_write INIT (status_writes (history r)) \<and>
      last (INIT # status_writes (history r)) = status r)"

text \<open>
  What holds between two notifications: the reader is listening exactly while it holds
  its transport; the assignments made before the first exception left
  \<^verbatim>\<open>readyStateChangeHandler_\<close> are of that kind; and as long as none has, the last of them
  is the reader's status, which is \<^verbatim>\<open>INIT\<close> or \<^verbatim>\<open>ACTIVE\<close> for a reader that still holds
  its transport.
\<close>

definition between_notifications :: "'m XhrStreamReader \<Rightarrow> bool" where
  "between_notifications r =
     (listening r = (xhr r \<noteq> None) \<and>
      chain allowed_write INIT (status_writes (before_escape (history r))) \<and>
      (ExceptionPropagated \<notin> set (history r) \<longrightarrow>
         last (INIT # status_writes (history r)) = status r \<and>
         (xhr r \<noteq> None \<longrightarrow> status r = INIT \<or> status r = ACTIVE)))"

text \<open>
  What holds inside \<^verbatim>\<open>onReadyStateChanged_\<close>, and when an exception leaves it, in a run
  in which none has left \<^verbatim>\<open>readyStateChangeHandler_\<close> so far.
\<close>

definition interrupted :: "'m XhrStreamReader \<Rightarrow> bool" where
  "interrupted r =
     (status_tracked r \<and> xhr r \<noteq> None \<and> listening r \<and>
      ExceptionPropagated \<notin> set (history r))"

definition processing :: "'m XhrStreamReader \<Rightarrow> bool" where
  "processing r = (interrupted r \<and> status r \<noteq> SUCCESS \<and> status r \<noteq> HANDLER_EXCEPTION)"

text \<open>The words of the second claim about the status: no assignment lowers it.\<close>

definition never_lowered :: "XhrStreamReaderStatus list \<Rightarrow> bool" where
  "never_lowered ss = chain (\<lambda>a b. status_num a \<le> status_num b) INIT ss"

text \<open>The messages of a result: none for \<^verbatim>\<open>null\<close>.\<close>

fun messages_of :: "'m parse_result \<Rightarrow> 'm list" where
  "messages_of (ParseMessages ms) = ms"
| "messages_of r = []"

text \<open>The read cursor after each notification of a run.\<close>

primrec cursors :: "'m decoder \<Rightarrow> XhrIo_event list \<Rightarrow> 'm XhrStreamReader \<Rightarrow> nat list" where
  "cursors D [] r = []"
| "cursors D (ev # evs) r = pos (deliver D ev r) # cursors D evs (deliver D ev r)"

text \<open>
  The selection of the decoder in the words of the spec (4.4), to be compared with
  \<open>getParserByResponseHeader\<close>: case-insensitive, the most specific prefix first. A
  header that is absent or empty declares nothing.
\<close>

definition spec_decoder_selection :: "string option \<Rightarrow> string option \<Rightarrow> parser_kind option" where
  "spec_decoder_selection content_type transfer_encoding =
     (case content_type of
        None \<Rightarrow> None
      | Some ct \<Rightarrow>
          if prefix ''application/json+protobuf'' (toLowerCase ct) then Some PbJsonStreamParser
          else if prefix ''application/json'' (toLowerCase ct) then Some JsonStreamParser
          else if prefix ''application/x-protobuf'' (toLowerCase ct) then
            (if transfer_encoding = None \<or> transfer_encoding = Some [] then Some PbStreamParser
             else if map_option toLowerCase transfer_encoding = Some ''base64''
             then Some Base64PbStreamParser
             else None)
          else None)"

text \<open>No selection is computed after one that selected a parser.\<close>

fun selected_once :: "parser_kind option list \<Rightarrow> bool" where
  "selected_once [] = True"
| "selected_once (Some k # ks) = (ks = [])"
| "selected_once (None # ks) = selected_once ks"

text \<open>
  The invariants behind the selection: the reader's parser is of the class selected last,
  and nothing is selected after it; between two notifications, unless an exception has left
  \<^verbatim>\<open>readyStateChangeHandler_\<close>, at most one selection has been computed, and a reader whose
  selection failed has released its transport.
\<close>

definition selection_tracked :: "'m XhrStreamReader \<Rightarrow> bool" where
  "selection_tracked r =
     (selected_once (selections (history r)) \<and>
      map_option kind (parser r) = last (None # selections (history r)))"

definition selection_between :: "'m XhrStreamReader \<Rightarrow> bool" where
  "selection_between r =
     (selection_tracked r \<and>
      (ExceptionPropagated \<in> set (history r) \<or>
       length (selections (history r)) \<le> 1 \<and>
       (selections (history r) = [None] \<longrightarrow> xhr r = None)))"

definition selection_pending :: "'m XhrStreamReader \<Rightarrow> bool" where
  "selection_pending r =
     (selection_tracked r \<and>
      (ExceptionPropagated \<in> set (history r) \<or>
       length (selections (history r)) \<le> 1 \<and> selections (history r) \<noteq> [None]))"

definition selection_interrupted :: "'m XhrStreamReader \<Rightarrow> bool" where
  "selection_interrupted r =
     (selection_tracked r \<and>
      (ExceptionPropagated \<in> set (history r) \<or> length (selections (history r)) \<le> 1))"

subsection \<open>Examples\<close>

text \<open>A decoder that never has a complete message.\<close>

definition no_messages :: "nat decoder" where
  "no_messages k given d = ParseNull"

text \<open>The request timed out and there are no response headers.\<close>

definition timeout_without_headers :: XhrIo_event where
  "timeout_without_headers =
     \<lparr>target = 1, readyState = COMPLETE, lastErrorCode = ErrorCode_TIMEOUT, statusCode = 0,
      responseText = [], contentType = None, contentTransferEncoding = None\<rparr>"

text \<open>A first chunk of a JSON stream.\<close>

definition json_chunk :: XhrIo_event where
  "json_chunk =
     \<lparr>target = 1, readyState = INTERACTIVE, lastErrorCode = ErrorCode_NO_ERROR, statusCode = 200,
      responseText = ''[1,'', contentType = Some ''application/json'',
      contentTransferEncoding = None\<rparr>"

text \<open>The application aborted the request and there are no response headers.\<close>

definition abort_without_headers :: XhrIo_event where
  "abort_without_headers =
     \<lparr>target = 1, readyState = COMPLETE, lastErrorCode = ErrorCode_ABORT, statusCode = 0,
      responseText = [], contentType = None, contentTransferEncoding = None\<rparr>"

text \<open>The rest of the JSON stream, complete.\<close>

definition json_complete :: XhrIo_event where
  "json_complete =
     \<lparr>target = 1, readyState = COMPLETE, lastErrorCode = ErrorCode_NO_ERROR, statusCode = 200,
      responseText = ''[1,2]'', contentType = Some ''application/json'',
      contentTransferEncoding = None\<rparr>"



text \<open>A status handler that always throws.\<close>

definition always_throws :: "nat event list \<Rightarrow> handler_result" where
  "always_throws h = Throws"

text \<open>A data handler that returns, and one that throws.\<close>

definition accepts :: "'m list \<Rightarrow> 'm event list \<Rightarrow> handler_result" where
  "accepts ms h = Returns"

definition rejects :: "'m list \<Rightarrow> 'm event list \<Rightarrow> handler_result" where
  "rejects ms h = Throws"

text \<open>
  A first chunk of a JSON stream that holds one complete message, the array
  \<^verbatim>\<open>[7]\<close>, and a decoder that returns this message for this chunk and \<^verbatim>\<open>null\<close> for
  every other text.
\<close>

definition json_rows :: XhrIo_event where
  "json_rows =
     \<lparr>target = 1, readyState = INTERACTIVE, lastErrorCode = ErrorCode_NO_ERROR, statusCode = 200,
      responseText = ''[[7],'', contentType = Some ''application/json'',
      contentTransferEncoding = None\<rparr>"

definition one_message :: "nat list decoder" where
  "one_message k given d =
     (if k = JsonStreamParser \<and> given = [] \<and> d = ''[[7],'' then ParseMessages [[7]]
      else ParseNull)"

text \<open>
  A complete response in a content type that needs a transfer encoding the reader knows,
  with one it does not know.
\<close>

definition gzip_complete :: XhrIo_event where
  "gzip_complete =
     \<lparr>target = 1, readyState = COMPLETE, lastErrorCode = ErrorCode_NO_ERROR, statusCode = 200,
      responseText = ''x'', contentType = Some ''application/x-protobuf'',
      contentTransferEncoding = Some ''gzip''\<rparr>"

text \<open>A first chunk of a response without headers.\<close>

definition chunk_without_headers :: XhrIo_event where
  "chunk_without_headers =
     \<lparr>target = 1, readyState = INTERACTIVE, lastErrorCode = ErrorCode_NO_ERROR, statusCode = 200,
      responseText = ''x'', contentType = None, contentTransferEncoding = None\<rparr>"

section \<open>Reasoning about the handler\<close>

lemma post_Returned [simp]: "post (Returned r) Q E = Q r"
  by (simp add: post_def)

lemma post_Threw [simp]: "post (Threw r) Q E = E r"
  by (simp add: post_def)

lemma post_andThen: "post (andThen c k) Q E = post c (\<lambda>r. post (k r) Q E) E"
  by (cases c) simp_all

lemma post_case:
  "post (case c of Returned r \<Rightarrow> f r | Threw r \<Rightarrow> g r) Q E =
   post c (\<lambda>r. post (f r) Q E) (\<lambda>r. post (g r) Q E)"
  by (cases c) simp_all

lemma emit_fields [simp]:
  "xhr (emit e r) = xhr r" "parser (emit e r) = parser r" "pos (emit e r) = pos r"
  "status (emit e r) = status r" "statusHandler (emit e r) = statusHandler r"
  "dataHandler (emit e r) = dataHandler r" "listening (emit e r) = listening r"
  "history (emit e r) = history r @ [e]"
  by (simp_all add: emit_def)

lemma updateStatus_post:
  assumes "status r = s \<Longrightarrow> Q r"
    and "status r \<noteq> s \<Longrightarrow> statusHandler r = None \<Longrightarrow> Q (emit (StatusSet s) (r\<lparr>status := s\<rparr>))"
    and "status r \<noteq> s \<Longrightarrow> statusHandler r \<noteq> None \<Longrightarrow>
           Q (emit (StatusHandlerCalled s) (emit (StatusSet s) (r\<lparr>status := s\<rparr>)))"
    and "status r \<noteq> s \<Longrightarrow> statusHandler r \<noteq> None \<Longrightarrow>
           E (emit (StatusHandlerCalled s) (emit (StatusSet s) (r\<lparr>status := s\<rparr>)))"
  shows "post (updateStatus s r) Q E"
  using assms
  by (auto simp: updateStatus_def Let_def split: option.splits handler_result.splits)

lemma clear_fields [simp]:
  "xhr (clear r) = None" "parser (clear r) = parser r" "pos (clear r) = pos r"
  "status (clear r) = status r" "statusHandler (clear r) = statusHandler r"
  "dataHandler (clear r) = dataHandler r" "listening (clear r) = False"
  by (simp_all add: clear_def Let_def split: option.splits)

lemma clear_history:
  "history (clear r) =
     history r @ (case xhr r of None \<Rightarrow> [] | Some x \<Rightarrow> [AbortCalled x None, DisposeCalled x])"
  by (simp add: clear_def Let_def split: option.splits)

lemma parseAndDeliver_post:
  assumes "parser r = None \<Longrightarrow> E r"
    and "\<And>p. parser r = Some p \<Longrightarrow> D (kind p) (fed p) d = ParseThrows \<Longrightarrow>
           E (emit (ParseCalled d) (r\<lparr>parser := Some (p\<lparr>fed := fed p @ [d]\<rparr>)\<rparr>))"
    and "\<And>p. parser r = Some p \<Longrightarrow> D (kind p) (fed p) d = ParseNull \<Longrightarrow>
           Q (emit (ParseCalled d) (r\<lparr>parser := Some (p\<lparr>fed := fed p @ [d]\<rparr>)\<rparr>))"
    and "\<And>p ms. parser r = Some p \<Longrightarrow> D (kind p) (fed p) d = ParseMessages ms \<Longrightarrow>
           dataHandler r = None \<Longrightarrow>
           Q (emit (ParseCalled d) (r\<lparr>parser := Some (p\<lparr>fed := fed p @ [d]\<rparr>)\<rparr>))"
    and "\<And>p ms. parser r = Some p \<Longrightarrow> D (kind p) (fed p) d = ParseMessages ms \<Longrightarrow>
           dataHandler r \<noteq> None \<Longrightarrow>
           Q (emit (DataHandlerCalled ms)
               (emit (ParseCalled d) (r\<lparr>parser := Some (p\<lparr>fed := fed p @ [d]\<rparr>)\<rparr>)))"
    and "\<And>p ms. parser r = Some p \<Longrightarrow> D (kind p) (fed p) d = ParseMessages ms \<Longrightarrow>
           dataHandler r \<noteq> None \<Longrightarrow>
           E (emit (DataHandlerCalled ms)
               (emit (ParseCalled d) (r\<lparr>parser := Some (p\<lparr>fed := fed p @ [d]\<rparr>)\<rparr>)))"
  shows "post (parseAndDeliver D d r) Q E"
  using assms
  by (auto simp: parseAndDeliver_def Let_def split: option.splits handler_result.splits parse_result.splits)

lemma finishNotification_post:
  assumes "readyState ev = COMPLETE \<Longrightarrow> responseText ev = [] \<Longrightarrow>
             post (updateStatus NO_DATA r) (\<lambda>r1. Q (clear r1)) E"
    and "readyState ev = COMPLETE \<Longrightarrow> responseText ev \<noteq> [] \<Longrightarrow>
             post (updateStatus SUCCESS r) (\<lambda>r1. Q (clear r1)) E"
    and "readyState ev \<noteq> COMPLETE \<Longrightarrow> post (updateStatus ACTIVE r) Q E"
  shows "post (finishNotification ev r) Q E"
  using assms by (simp add: finishNotification_def post_andThen)

lemma status_unchanged_or:
  "post (updateStatus s r) (\<lambda>r'. status r' = s) (\<lambda>r'. status r' = s)"
  by (rule updateStatus_post) simp_all

lemma onReadyStateChanged_post:
  fixes r :: "'m XhrStreamReader"
  assumes early: "deferred ev \<Longrightarrow> Q r"
    and classify: "\<And>s. \<not> deferred ev \<Longrightarrow> classification ev = Some s \<Longrightarrow>
           post (updateStatus s r) A1 E"
    and noclass: "\<not> deferred ev \<Longrightarrow> classification ev = None \<Longrightarrow> A1 r"
    and parser_kept: "\<And>r1. A1 r1 \<Longrightarrow> parser r1 \<noteq> None \<Longrightarrow> A2 r1"
    and parser_new: "\<And>r1 p. A1 r1 \<Longrightarrow> parser r1 = None \<Longrightarrow>
           getParserByResponseHeader ev = Some p \<Longrightarrow>
           A2 (emit (SelectionComputed (Some (kind p))) (r1\<lparr>parser := Some p\<rparr>))"
    and parser_fail: "\<And>r1. A1 r1 \<Longrightarrow> parser r1 = None \<Longrightarrow>
           getParserByResponseHeader ev = None \<Longrightarrow>
           post (updateStatus BAD_DATA (emit (SelectionComputed None) r1)) (\<lambda>r3. Q (clear r3)) E"
    and short: "\<And>r3. A2 r3 \<Longrightarrow> status_num SUCCESS < status_num (status r3) \<Longrightarrow> Q (clear r3)"
    and decode: "\<And>r3 p. A2 r3 \<Longrightarrow> status_num (status r3) \<le> status_num SUCCESS \<Longrightarrow>
           parser r3 = Some p \<Longrightarrow> pos r3 < length (responseText ev) \<Longrightarrow>
           post (parseAndDeliver D (drop (pos r3) (responseText ev))
                   (r3\<lparr>pos := length (responseText ev)\<rparr>))
             (\<lambda>r5. post (finishNotification ev r5) Q E)
             (\<lambda>r5. post (updateStatus BAD_DATA r5) (\<lambda>r6. Q (clear r6)) E)"
    and nodecode: "\<And>r3. A2 r3 \<Longrightarrow> status_num (status r3) \<le> status_num SUCCESS \<Longrightarrow>
           \<not> pos r3 < length (responseText ev) \<Longrightarrow> post (finishNotification ev r3) Q E"
  shows "xhr r \<noteq> None \<Longrightarrow> post (onReadyStateChanged D ev r) Q E"
proof -
  assume live: "xhr r \<noteq> None"
  define rest where "rest = (\<lambda>r3. if status_num (status r3) > status_num SUCCESS then Returned (clear r3)
                       else if length (responseText ev) > pos r3 then
                         (let newData = drop (pos r3) (responseText ev);
                              r4 = r3\<lparr>pos := length (responseText ev)\<rparr>
                          in
                          case parseAndDeliver D newData r4 of
                            Returned r5 \<Rightarrow> finishNotification ev r5
                          | Threw r5 \<Rightarrow>
                              andThen (updateStatus BAD_DATA r5) (\<lambda>r6. Returned (clear r6)))
                       else finishNotification ev r3)"
  define sel where "sel = (\<lambda>r1 :: 'm XhrStreamReader. (if parser r1 = None then
                       (let selected = getParserByResponseHeader ev;
                            r2 = emit (SelectionComputed (map_option kind selected))
                                   (r1\<lparr>parser := selected\<rparr>)
                        in
                        if parser r2 = None then updateStatus BAD_DATA r2 else Returned r2)
                     else Returned r1))"
  have rest: "post (rest r3) Q E" if "A2 r3" "parser r3 \<noteq> None" for r3
  proof -
    from that obtain p where p: "parser r3 = Some p" by auto
    show ?thesis
      using short [OF that(1)] decode [OF that(1) _ p] nodecode [OF that(1)]
      by (simp add: rest_def Let_def post_case post_andThen not_less)
  qed
  have restfail: "post (rest r3) Q E" if "status r3 = BAD_DATA" "Q (clear r3)" for r3
    using that by (simp add: rest_def)
  have sel: "post (andThen (sel r1) rest) Q E" if a1: "A1 r1" for r1
  proof (cases "parser r1")
    case (Some p)
    then show ?thesis using rest [OF parser_kept [OF a1]] by (simp add: sel_def)
  next
    case None
    show ?thesis
    proof (cases "getParserByResponseHeader ev")
      case (Some p)
      then show ?thesis using None rest [OF parser_new [OF a1 None Some]] by (simp add: sel_def Let_def)
    next
      case N2: None
      have same: "r1\<lparr>parser := None\<rparr> = r1"
        using None by (cases r1) simp
      let ?r2 = "emit (SelectionComputed None) r1"
      have "post (updateStatus BAD_DATA ?r2) (\<lambda>r3. post (rest r3) Q E) E"
        using parser_fail [OF a1 None N2] status_unchanged_or [of BAD_DATA ?r2] restfail
        by (cases "updateStatus BAD_DATA ?r2") simp_all
      then show ?thesis using None N2 by (simp add: sel_def post_andThen same Let_def)
    qed
  qed
  have cls: "post (updateStatus s r) (\<lambda>r1. post (andThen (sel r1) rest) Q E) E"
    if "\<not> deferred ev" "classification ev = Some s" for s
    using classify [OF that] sel by (cases "updateStatus s r") simp_all
  from live obtain x where x: "xhr r = Some x"
    by auto
  have "onReadyStateChanged D ev r =
     (if deferred ev then Returned r
      else andThen (case classification ev of None \<Rightarrow> Returned r | Some s \<Rightarrow> updateStatus s r)
             (\<lambda>r1. andThen (sel r1) rest))"
    unfolding onReadyStateChanged_def sel_def rest_def Let_def x option.case deferred_def
      classification_def
    by simp
  then show ?thesis
    using early sel [OF noclass] cls
    by (cases "classification ev") (simp_all add: post_andThen)
qed

lemma classification_cases:
  assumes "classification ev = Some s"
  shows "readyState ev = COMPLETE" and "\<not> deferred ev"
    and "s = TIMEOUT \<or> s = CANCELLED \<or> s = XHR_ERROR"
  using assms by (auto simp: classification_def deferred_def split: if_splits)

lemma readyStateChangeHandler_post:
  assumes "Some (target ev) \<noteq> xhr r \<Longrightarrow> Q r"
    and "Some (target ev) = xhr r \<Longrightarrow>
           post (onReadyStateChanged D ev r) Q
             (\<lambda>r1. post (updateStatus HANDLER_EXCEPTION r1) (\<lambda>r2. Q (clear r2)) E)"
  shows "post (readyStateChangeHandler D ev r) Q E"
  using assms by (simp add: readyStateChangeHandler_def post_case post_andThen)

lemma post_mono:
  assumes "post c Q E" and "\<And>r. Q r \<Longrightarrow> Q' r" and "\<And>r. E r \<Longrightarrow> E' r"
  shows "post c Q' E'"
  using assms by (cases c) simp_all

lemma deliver_post:
  assumes "\<not> listening r \<Longrightarrow> P r"
    and "listening r \<Longrightarrow>
           post (readyStateChangeHandler D ev r) P (\<lambda>r1. P (emit ExceptionPropagated r1))"
  shows "P (deliver D ev r)"
  using assms
  by (cases "listening r"; cases "readyStateChangeHandler D ev r") (simp_all add: deliver_def)

lemma deliver_invariant:
  fixes r :: "'m XhrStreamReader"
  assumes K: "K r"
    and updN: "\<And>(r :: 'm XhrStreamReader) s. K r \<Longrightarrow> status r \<noteq> s \<Longrightarrow>
           status_num SUCCESS < status_num s \<or> status_num (status r) \<le> status_num SUCCESS \<Longrightarrow>
           statusHandler r = None \<Longrightarrow>
           K (emit (StatusSet s) (r\<lparr>status := s\<rparr>))"
    and updH: "\<And>(r :: 'm XhrStreamReader) s. K r \<Longrightarrow> status r \<noteq> s \<Longrightarrow>
           status_num SUCCESS < status_num s \<or> status_num (status r) \<le> status_num SUCCESS \<Longrightarrow>
           statusHandler r \<noteq> None \<Longrightarrow>
           K (emit (StatusHandlerCalled s) (emit (StatusSet s) (r\<lparr>status := s\<rparr>)))"
    and sel: "\<And>(r :: 'm XhrStreamReader) p. K r \<Longrightarrow> parser r = None \<Longrightarrow>
           K (emit (SelectionComputed (map_option kind p)) (r\<lparr>parser := p\<rparr>))"
    and adv: "\<And>(r :: 'm XhrStreamReader) p. K r \<Longrightarrow>
           status_num (status r) \<le> status_num SUCCESS \<Longrightarrow> parser r = Some p \<Longrightarrow>
           pos r < length (responseText ev) \<Longrightarrow>
           K (emit (ParseCalled (drop (pos r) (responseText ev)))
               (r\<lparr>pos := length (responseText ev),
                  parser := Some (p\<lparr>fed := fed p @ [drop (pos r) (responseText ev)]\<rparr>)\<rparr>))"
    and dat: "\<And>(r :: 'm XhrStreamReader) ms. K r \<Longrightarrow>
           status_num (status r) \<le> status_num SUCCESS \<Longrightarrow>
           K (emit (DataHandlerCalled ms) r)"
    and clr: "\<And>r :: 'm XhrStreamReader. K r \<Longrightarrow> K (clear r)"
    and esc: "\<And>r :: 'm XhrStreamReader. K r \<Longrightarrow> K (emit ExceptionPropagated r)"
  shows "K (deliver D ev r)"
proof -
  define ok where "ok = (\<lambda>r :: 'm XhrStreamReader. K r \<and> status_num (status r) \<le> status_num SUCCESS)"
  have updK: "post (updateStatus s r) K K"
    if "K r" "status_num SUCCESS < status_num s \<or> status_num (status r) \<le> status_num SUCCESS"
    for r :: "'m XhrStreamReader" and s
    using that by (intro updateStatus_post updN updH) simp_all
  have updC: "post (updateStatus s r) (\<lambda>r1. K (clear r1)) K"
    if "K r" "status_num SUCCESS < status_num s \<or> status_num (status r) \<le> status_num SUCCESS"
    for r :: "'m XhrStreamReader" and s
    using updK [OF that] clr by (rule post_mono)
  have fin: "post (finishNotification ev r) K K" if "ok r" for r :: "'m XhrStreamReader"
    using that unfolding ok_def
    by (intro finishNotification_post updK updC) simp_all
  have body: "post (onReadyStateChanged D ev r) K K" if live: "xhr r \<noteq> None"
  proof (rule onReadyStateChanged_post [where ?A1.0 = K and ?A2.0 = K, OF _ _ _ _ _ _ _ _ _ live])
    show "K r" "K r" by fact+
    show "post (updateStatus s r) K K" if "classification ev = Some s" for s
      using classification_cases(3) [OF that] by (intro updK K) auto
    show "K r1" if "K r1" for r1 by fact
    show "K (emit (SelectionComputed (Some (kind p))) (r1\<lparr>parser := Some p\<rparr>))"
      if "K r1" "parser r1 = None" for r1 p
      using sel [OF that, of "Some p"] by simp
    show "post (updateStatus BAD_DATA (emit (SelectionComputed None) r1)) (\<lambda>r3. K (clear r3)) K"
      if "K r1" "parser r1 = None" for r1
    proof -
      have "r1\<lparr>parser := None\<rparr> = r1"
        using that(2) by (cases r1) simp
      with sel [OF that, of None] have "K (emit (SelectionComputed None) r1)"
        by simp
      then show ?thesis by (intro updC) simp_all
    qed
    show "K (clear r3)" if "K r3" for r3
      using that by (rule clr)
    show "post (finishNotification ev r3) K K"
      if "K r3" "status_num (status r3) \<le> status_num SUCCESS" for r3
      using that by (intro fin) (simp add: ok_def)
    show "post (parseAndDeliver D (drop (pos r3) (responseText ev))
                   (r3\<lparr>pos := length (responseText ev)\<rparr>))
             (\<lambda>r5. post (finishNotification ev r5) K K)
             (\<lambda>r5. post (updateStatus BAD_DATA r5) (\<lambda>r6. K (clear r6)) K)"
      if k3: "K r3" and s3: "status_num (status r3) \<le> status_num SUCCESS"
        and p3: "parser r3 = Some p" and n3: "pos r3 < length (responseText ev)" for r3 p
    proof -
      let ?d = "drop (pos r3) (responseText ev)"
      let ?r5 = "emit (ParseCalled ?d)
                  (r3\<lparr>pos := length (responseText ev),
                      parser := Some (p\<lparr>fed := fed p @ [?d]\<rparr>)\<rparr>)"
      have k5: "ok ?r5"
        using adv [OF k3 s3 p3 n3] s3 by (simp add: ok_def)
      have k6: "ok (emit (DataHandlerCalled ms) ?r5)" for ms
        using dat [of ?r5 ms] k5 by (simp add: ok_def)
      have "post (parseAndDeliver D ?d (r3\<lparr>pos := length (responseText ev)\<rparr>)) ok ok"
        by (rule parseAndDeliver_post) (use p3 k5 k6 in simp_all)
      then show ?thesis
      proof (rule post_mono)
        show "post (finishNotification ev r) K K" if "ok r" for r
          using that by (rule fin)
        show "post (updateStatus BAD_DATA r) (\<lambda>r6. K (clear r6)) K" if "ok r" for r
          using that by (intro updC) (simp_all add: ok_def)
      qed
    qed
  qed
  have handler: "post (readyStateChangeHandler D ev r) K K"
  proof (rule readyStateChangeHandler_post)
    show "K r" by fact
    assume own: "Some (target ev) = xhr r"
    then have "xhr r \<noteq> None" by (cases "xhr r") simp_all
    from body [OF this]
    show "post (onReadyStateChanged D ev r) K
            (\<lambda>r1. post (updateStatus HANDLER_EXCEPTION r1) (\<lambda>r2. K (clear r2)) K)"
    proof (rule post_mono)
      show "post (updateStatus HANDLER_EXCEPTION r1) (\<lambda>r2. K (clear r2)) K" if "K r1" for r1
        using that by (intro updC) simp_all
    qed
  qed
  show ?thesis
  proof (rule deliver_post)
    show "K r" by fact
    from handler show "post (readyStateChangeHandler D ev r) K (\<lambda>r1. K (emit ExceptionPropagated r1))"
      by (rule post_mono) (use esc in auto)
  qed
qed

lemma run_append: "run D (evs @ later) r = run D later (run D evs r)"
  by (induction evs arbitrary: r) simp_all

lemma run_invariant:
  assumes "K r" and "\<And>r ev. K r \<Longrightarrow> K (deliver D ev r)"
  shows "K (run D evs r)"
  using assms by (induction evs arbitrary: r) simp_all

lemma reader_with_fields [simp]:
  "xhr (reader_with x sh dh) = Some x" "parser (reader_with x sh dh) = None"
  "pos (reader_with x sh dh) = 0" "status (reader_with x sh dh) = INIT"
  "statusHandler (reader_with x sh dh) = sh" "dataHandler (reader_with x sh dh) = dh"
  "listening (reader_with x sh dh)" "history (reader_with x sh dh) = []"
  by (cases sh; cases dh;
      simp add: reader_with_def new_XhrStreamReader_def setStatusHandler_def setDataHandler_def)+

lemma status_writes_append [simp]:
  "status_writes (a @ b) = status_writes a @ status_writes b"
  by (induction a rule: status_writes.induct) simp_all

lemma status_handler_calls_append [simp]:
  "status_handler_calls (a @ b) = status_handler_calls a @ status_handler_calls b"
  by (induction a rule: status_handler_calls.induct) simp_all

lemma selections_append [simp]: "selections (a @ b) = selections a @ selections b"
  by (induction a rule: selections.induct) simp_all

lemma parse_calls_append [simp]: "parse_calls (a @ b) = parse_calls a @ parse_calls b"
  by (induction a rule: parse_calls.induct) simp_all

lemma data_handler_calls_append [simp]:
  "data_handler_calls (a @ b) = data_handler_calls a @ data_handler_calls b"
  by (induction a rule: data_handler_calls.induct) simp_all

lemma abort_calls_append [simp]: "abort_calls (a @ b) = abort_calls a @ abort_calls b"
  by (induction a rule: abort_calls.induct) simp_all

lemma dispose_calls_append [simp]: "dispose_calls (a @ b) = dispose_calls a @ dispose_calls b"
  by (induction a rule: dispose_calls.induct) simp_all

lemma chain_snoc: "chain R a (xs @ [b]) = (chain R a xs \<and> R (last (a # xs)) b)"
  by (induction xs arbitrary: a) auto

lemma clear_clear: "clear (clear r) = clear r"
  by (simp add: clear_def Let_def split: option.splits)

lemma detached_ignores: "xhr r = None \<Longrightarrow> readyStateChangeHandler D ev r = Returned r"
  by (simp add: readyStateChangeHandler_def)

lemma detached_deliver: "xhr r = None \<Longrightarrow> deliver D ev r = r"
  by (simp add: deliver_def detached_ignores)

lemma detached_run: "xhr r = None \<Longrightarrow> run D evs r = r"
  by (induction evs) (simp_all add: detached_deliver)

lemma clear_observations [simp]:
  "status_writes (history (clear r)) = status_writes (history r)"
  "status_handler_calls (history (clear r)) = status_handler_calls (history r)"
  "selections (history (clear r)) = selections (history r)"
  "parse_calls (history (clear r)) = parse_calls (history r)"
  "data_handler_calls (history (clear r)) = data_handler_calls (history r)"
  "ExceptionPropagated \<in> set (history (clear r)) \<longleftrightarrow> ExceptionPropagated \<in> set (history r)"
  "abort_calls (history (clear r)) =
     abort_calls (history r) @ (case xhr r of None \<Rightarrow> [] | Some x \<Rightarrow> [x])"
  "dispose_calls (history (clear r)) =
     dispose_calls (history r) @ (case xhr r of None \<Rightarrow> [] | Some x \<Rightarrow> [x])"
  "list_all aborted_detached (history (clear r)) = list_all aborted_detached (history r)"
  by (simp_all add: clear_history split: option.splits)

lemmas reader_defs =
  deliver_def readyStateChangeHandler_def onReadyStateChanged_def finishNotification_def
  parseAndDeliver_def updateStatus_def clear_def emit_def getParserByResponseHeader_def
  new_parser_def toLowerCase_def toLowerCase_char_def startsWith_def HttpStatus_OK_def
  HttpStatus_PARTIAL_CONTENT_def reader_with_def new_XhrStreamReader_def setStatusHandler_def
  setDataHandler_def terminal_failure_def Let_def

lemma after_failure_tail: "list_all P es \<Longrightarrow> after_failure P es"
  by (induction P es rule: after_failure.induct) simp_all

lemma after_failure_none:
  "\<not> list_ex terminal_failure (status_writes es) \<Longrightarrow> after_failure P es"
  by (induction P es rule: after_failure.induct) simp_all

lemma after_failure_append:
  "after_failure P (a @ b) =
     (if list_ex terminal_failure (status_writes a) then after_failure P a \<and> list_all P b
      else after_failure P b)"
  by (induction P a rule: after_failure.induct) (auto simp: after_failure_tail)

lemma after_failure_mono:
  assumes "after_failure P es" and "\<And>e. P e \<Longrightarrow> P' e"
  shows "after_failure P' es"
  using assms by (induction P es rule: after_failure.induct) (auto simp: list_all_iff)

lemma after_failure_clear [simp]:
  "after_failure quiet (history (clear r)) = after_failure quiet (history r)"
  by (cases "xhr r") (auto simp: clear_history after_failure_append after_failure_none)

lemma failure_absorbed_deliver:
  fixes r :: "'m XhrStreamReader"
  assumes "failure_absorbed r"
  shows "failure_absorbed (deliver D ev r)"
  using assms
  by (rule deliver_invariant)
     (auto simp: failure_absorbed_def after_failure_append terminal_failure_def)

lemma failure_absorbed_run: "failure_absorbed (run D evs (reader_with x sh dh))"
  by (rule run_invariant) (simp add: failure_absorbed_def, rule failure_absorbed_deliver)

lemma updateStatus_fields [simp]:
  "xhr (state_of (updateStatus s r)) = xhr r"
  "parser (state_of (updateStatus s r)) = parser r"
  "pos (state_of (updateStatus s r)) = pos r"
  "status (state_of (updateStatus s r)) = s"
  "statusHandler (state_of (updateStatus s r)) = statusHandler r"
  "dataHandler (state_of (updateStatus s r)) = dataHandler r"
  "listening (state_of (updateStatus s r)) = listening r"
  by (simp_all add: updateStatus_def Let_def split: option.splits handler_result.splits)

lemma updateStatus_history:
  "history (state_of (updateStatus s r)) =
     history r @
       (if status r = s then []
        else StatusSet s #
          (case statusHandler r of None \<Rightarrow> [] | Some h \<Rightarrow> [StatusHandlerCalled s]))"
  by (simp add: updateStatus_def Let_def split: option.splits handler_result.splits)

lemma updateStatus_observations [simp]:
  "status_writes (history (state_of (updateStatus s r))) =
     status_writes (history r) @ (if status r = s then [] else [s])"
  "selections (history (state_of (updateStatus s r))) = selections (history r)"
  "parse_calls (history (state_of (updateStatus s r))) = parse_calls (history r)"
  "data_handler_calls (history (state_of (updateStatus s r))) = data_handler_calls (history r)"
  "ExceptionPropagated \<in> set (history (state_of (updateStatus s r))) \<longleftrightarrow>
     ExceptionPropagated \<in> set (history r)"
  by (simp_all add: updateStatus_history split: option.splits)

lemma post_state_of: "Q (state_of c) \<Longrightarrow> E (state_of c) \<Longrightarrow> post c Q E"
  by (cases c) simp_all

lemma allowed_write_simps [simp]:
  "allowed_write a HANDLER_EXCEPTION" "allowed_write a a" "allowed_write INIT b"
  "allowed_write ACTIVE XHR_ERROR" "allowed_write ACTIVE TIMEOUT" "allowed_write ACTIVE CANCELLED"
  "allowed_write ACTIVE NO_DATA" "allowed_write ACTIVE SUCCESS" "allowed_write ACTIVE BAD_DATA"
  "allowed_write XHR_ERROR BAD_DATA" "allowed_write TIMEOUT BAD_DATA"
  "allowed_write CANCELLED BAD_DATA"
  by (cases a; cases b; simp add: allowed_write_def)+

lemma before_escape_append:
  "before_escape (a @ b) =
     (if ExceptionPropagated \<in> set a then before_escape a else a @ before_escape b)"
  by (induction a rule: before_escape.induct) simp_all

lemma before_escape_id: "ExceptionPropagated \<notin> set h \<Longrightarrow> before_escape h = h"
  using before_escape_append [of h "[]"] by simp

lemma clear_before_escape [simp]:
  "status_writes (before_escape (history (clear r))) = status_writes (before_escape (history r))"
  by (cases "ExceptionPropagated \<in> set (history r)")
     (simp_all add: clear_history before_escape_append before_escape_id split: option.splits)

lemma status_tracked_update:
  assumes "status_tracked r" and "allowed_write (status r) s"
  shows "status_tracked (state_of (updateStatus s r))"
  using assms by (auto simp: status_tracked_def chain_snoc)

lemma interrupted_update:
  assumes "interrupted r" and "allowed_write (status r) s"
  shows "interrupted (state_of (updateStatus s r))"
  using assms by (simp add: interrupted_def status_tracked_update)

lemma between_notifications_clear:
  assumes "interrupted r"
  shows "between_notifications (clear r)"
  using assms
  by (auto simp: interrupted_def between_notifications_def status_tracked_def before_escape_id)

lemma report_failure:
  assumes "interrupted r" and "allowed_write (status r) s"
  shows "post (updateStatus s r) (\<lambda>r1. between_notifications (clear r1)) interrupted"
  by (rule post_state_of) (simp_all add: assms interrupted_update between_notifications_clear)

lemma finishNotification_between:
  assumes "interrupted r" and "status r = INIT \<or> status r = ACTIVE"
  shows "post (finishNotification ev r) between_notifications interrupted"
proof (rule finishNotification_post)
  show "post (updateStatus NO_DATA r) (\<lambda>r1. between_notifications (clear r1)) interrupted"
    using assms by (intro report_failure) auto
  show "post (updateStatus SUCCESS r) (\<lambda>r1. between_notifications (clear r1)) interrupted"
    using assms by (intro report_failure) auto
  have "interrupted (state_of (updateStatus ACTIVE r))"
    using assms by (intro interrupted_update) auto
  then show "post (updateStatus ACTIVE r) between_notifications interrupted"
    by (intro post_state_of)
       (simp_all add: between_notifications_def interrupted_def status_tracked_def
          before_escape_id)
qed

lemma onReadyStateChanged_between:
  fixes r :: "'m XhrStreamReader"
  assumes i: "interrupted r" and st: "status r = INIT \<or> status r = ACTIVE"
  shows "post (onReadyStateChanged D ev r) between_notifications interrupted"
proof -
  have live: "xhr r \<noteq> None"
    using i by (simp add: interrupted_def)
  have writable: "allowed_write (status q) BAD_DATA" if "processing q" for q :: "'m XhrStreamReader"
    using that by (cases "status q") (simp_all add: processing_def allowed_write_def)
  show ?thesis
  proof (rule onReadyStateChanged_post [where ?A1.0 = processing and ?A2.0 = processing,
        OF _ _ _ _ _ _ _ _ _ live])
    show "between_notifications r"
      using i st
      by (auto simp: between_notifications_def interrupted_def status_tracked_def
          before_escape_id)
    show "processing r"
      using i st by (auto simp: processing_def)
    show "post (updateStatus s r) processing interrupted" if "classification ev = Some s" for s
    proof -
      note s = classification_cases(3) [OF that]
      have "allowed_write (status r) s"
        using st s by auto
      then have "interrupted (state_of (updateStatus s r))"
        using i by (intro interrupted_update)
      then show ?thesis
        using s by (intro post_state_of) (auto simp: processing_def)
    qed
    show "processing r1" if "processing r1" for r1 :: "'m XhrStreamReader" by fact
    show "processing (emit (SelectionComputed (Some (kind p))) (r1\<lparr>parser := Some p\<rparr>))"
      if "processing r1" for r1 :: "'m XhrStreamReader" and p
      using that by (auto simp: processing_def interrupted_def status_tracked_def)
    show "post (updateStatus BAD_DATA (emit (SelectionComputed None) r1))
            (\<lambda>r3. between_notifications (clear r3)) interrupted"
      if "processing r1" for r1 :: "'m XhrStreamReader"
      using that writable [OF that]
      by (intro report_failure) (auto simp: processing_def interrupted_def status_tracked_def)
    show "between_notifications (clear r3)" if "processing r3" for r3 :: "'m XhrStreamReader"
      using that by (simp add: processing_def between_notifications_clear)
    show "post (finishNotification ev r3) between_notifications interrupted"
      if "processing r3" "status_num (status r3) \<le> status_num SUCCESS" for r3 :: "'m XhrStreamReader"
    proof -
      have "status r3 = INIT \<or> status r3 = ACTIVE"
        using that by (cases "status r3") (simp_all add: processing_def)
      then show ?thesis
        using that by (intro finishNotification_between) (simp_all add: processing_def)
    qed
    show "post (parseAndDeliver D (drop (pos r3) (responseText ev))
                     (r3\<lparr>pos := length (responseText ev)\<rparr>))
               (\<lambda>r5. post (finishNotification ev r5) between_notifications interrupted)
               (\<lambda>r5. post (updateStatus BAD_DATA r5)
                       (\<lambda>r6. between_notifications (clear r6)) interrupted)"
      if p3: "processing r3" and s3: "status_num (status r3) \<le> status_num SUCCESS"
        and parser3: "parser r3 = Some p" for r3 :: "'m XhrStreamReader" and p
    proof -
      define ready where "ready = (\<lambda>q :: 'm XhrStreamReader. interrupted q \<and>
        (status q = INIT \<or> status q = ACTIVE))"
      have r3: "ready r3"
        using p3 s3 by (cases "status r3") (simp_all add: processing_def ready_def)
      have "post (parseAndDeliver D (drop (pos r3) (responseText ev))
                    (r3\<lparr>pos := length (responseText ev)\<rparr>)) ready ready"
        by (rule parseAndDeliver_post)
           (use r3 parser3 in \<open>auto simp: ready_def interrupted_def status_tracked_def\<close>)
      then show ?thesis
      proof (rule post_mono)
        show "post (finishNotification ev q) between_notifications interrupted" if "ready q" for q
          using that by (intro finishNotification_between) (simp_all add: ready_def)
        show "post (updateStatus BAD_DATA q) (\<lambda>r6. between_notifications (clear r6)) interrupted"
          if "ready q" for q
          using that by (intro report_failure) (auto simp: ready_def)
      qed
    qed
  qed
qed

text \<open>
  Once an exception has left \<^verbatim>\<open>readyStateChangeHandler_\<close>, a notification adds nothing to the
  history before it.
\<close>

lemma escaped_deliver:
  fixes r :: "'m XhrStreamReader"
  assumes "ExceptionPropagated \<in> set (history r)" and "listening r = (xhr r \<noteq> None)"
  shows "ExceptionPropagated \<in> set (history (deliver D ev r)) \<and>
         before_escape (history (deliver D ev r)) = before_escape (history r) \<and>
         listening (deliver D ev r) = (xhr (deliver D ev r) \<noteq> None)"
proof -
  define K where "K = (\<lambda>q :: 'm XhrStreamReader.
    ExceptionPropagated \<in> set (history q) \<and>
    before_escape (history q) = before_escape (history r) \<and>
    listening q = (xhr q \<noteq> None))"
  have "K r"
    using assms by (simp add: K_def)
  then have "K (deliver D ev r)"
    by (rule deliver_invariant)
       (auto simp: K_def before_escape_append clear_history split: option.splits)
  then show ?thesis
    by (simp add: K_def)
qed

lemma between_notifications_deliver:
  fixes r :: "'m XhrStreamReader"
  assumes b: "between_notifications r"
  shows "between_notifications (deliver D ev r)"
proof (cases "ExceptionPropagated \<in> set (history r)")
  case True
  with b escaped_deliver [of r D ev] show ?thesis
    by (simp add: between_notifications_def)
next
  case False
  show ?thesis
  proof (rule deliver_post)
    show "between_notifications r" by fact
    assume l: "listening r"
    have i: "interrupted r" and st: "status r = INIT \<or> status r = ACTIVE"
      using b l False
      by (auto simp: between_notifications_def interrupted_def status_tracked_def
          before_escape_id)
    define caught where "caught = (\<lambda>q :: 'm XhrStreamReader. interrupted q)"
    have "post (readyStateChangeHandler D ev r) between_notifications caught"
    proof (rule readyStateChangeHandler_post)
      show "between_notifications r" by fact
      from onReadyStateChanged_between [OF i st]
      show "post (onReadyStateChanged D ev r) between_notifications
              (\<lambda>r1. post (updateStatus HANDLER_EXCEPTION r1)
                      (\<lambda>r2. between_notifications (clear r2)) caught)"
      proof (rule post_mono)
        show "post (updateStatus HANDLER_EXCEPTION q) (\<lambda>r2. between_notifications (clear r2)) caught"
          if "interrupted q" for q
          using that
          by (intro post_state_of)
             (simp_all add: caught_def interrupted_update between_notifications_clear)
      qed
    qed
    then show "post (readyStateChangeHandler D ev r) between_notifications
                 (\<lambda>r1. between_notifications (emit ExceptionPropagated r1))"
      by (rule post_mono)
         (auto simp: caught_def interrupted_def between_notifications_def status_tracked_def
            before_escape_append)
  qed
qed

lemma between_notifications_run: "between_notifications (run D evs (reader_with x sh dh))"
  by (rule run_invariant)
     (simp add: between_notifications_def, rule between_notifications_deliver)

lemma caught_fields [simp]:
  "status (state_of (andThen (updateStatus s q) (\<lambda>r2. Returned (clear r2)))) = s"
  "parse_calls (history (state_of (andThen (updateStatus s q) (\<lambda>r2. Returned (clear r2))))) =
     parse_calls (history q)"
  "data_handler_calls (history (state_of (andThen (updateStatus s q) (\<lambda>r2. Returned (clear r2))))) =
     data_handler_calls (history q)"
  "selections (history (state_of (andThen (updateStatus s q) (\<lambda>r2. Returned (clear r2))))) =
     selections (history q)"
  by (cases "updateStatus s q";
      use updateStatus_fields(4) [of s q] updateStatus_observations [of s q] in simp)+


lemma handler_of_body:
  assumes "xhr r = Some (target ev)"
  shows "readyStateChangeHandler D ev r =
           (case onReadyStateChanged D ev r of
              Returned q \<Rightarrow> Returned q
            | Threw q \<Rightarrow> andThen (updateStatus HANDLER_EXCEPTION q) (\<lambda>r2. Returned (clear r2)))"
  using assms by (simp add: readyStateChangeHandler_def)


lemma finishNotification_observations [simp]:
  "parse_calls (history (state_of (finishNotification ev q))) = parse_calls (history q)"
  "data_handler_calls (history (state_of (finishNotification ev q))) =
     data_handler_calls (history q)"
  by (simp_all add: finishNotification_def)

section \<open>The status handler is called once for each change of the status\<close>

lemma handlers_kept:
  fixes r :: "'m XhrStreamReader"
  shows "statusHandler (deliver D ev r) = statusHandler r \<and>
         dataHandler (deliver D ev r) = dataHandler r"
  by (rule deliver_invariant [where K = "\<lambda>q. statusHandler q = statusHandler r \<and>
        dataHandler q = dataHandler r"]) simp_all

lemma notified_each_change_deliver:
  fixes r :: "'m XhrStreamReader"
  assumes "notified_each_change r"
  shows "notified_each_change (deliver D ev r)"
  using assms
  by (rule deliver_invariant) (auto simp: notified_each_change_def chain_snoc)

text \<open>
  C9. A call of \<^verbatim>\<open>updateStatus_\<close> assigns the status and calls the registered status
  handler exactly when the new status differs from the current one, and then once; with
  the same status it does nothing. So, in every run of a reader, the calls of a registered
  status handler are the assignments of the status, one call for each, and every assignment
  changes the status.
\<close>

theorem updateStatus_notifies_iff_changed:
  "history (state_of (updateStatus s r)) =
     history r @
       (if status r = s then []
        else StatusSet s #
          (case statusHandler r of None \<Rightarrow> [] | Some h \<Rightarrow> [StatusHandlerCalled s])) \<and>
   status (state_of (updateStatus s r)) = s \<and>
   status_handler_calls (history (run D evs (reader_with x sh dh))) =
     (if sh = None then [] else status_writes (history (run D evs (reader_with x sh dh)))) \<and>
   chain (\<noteq>) INIT (status_writes (history (run D evs (reader_with x sh dh))))"
proof -
  have one: "history (state_of (updateStatus s r)) =
     history r @
       (if status r = s then []
        else StatusSet s #
          (case statusHandler r of None \<Rightarrow> [] | Some h \<Rightarrow> [StatusHandlerCalled s]))"
    by (simp add: updateStatus_def Let_def split: option.splits handler_result.splits)
  have two: "status (state_of (updateStatus s r)) = s"
    by (simp add: updateStatus_def Let_def split: option.splits handler_result.splits)
  let ?r = "run D evs (reader_with x sh dh)"
  have "statusHandler (run D evs q) = statusHandler q" for q
    by (induction evs arbitrary: q) (simp_all add: handlers_kept)
  then have sh: "statusHandler ?r = sh"
    by simp
  have "notified_each_change ?r"
    by (rule run_invariant) (simp add: notified_each_change_def, rule notified_each_change_deliver)
  with sh one two show ?thesis
    by (simp add: notified_each_change_def)
qed

section \<open>Teardown\<close>

lemma teardown_once_deliver:
  fixes r :: "'m XhrStreamReader"
  assumes "teardown_once x r"
  shows "teardown_once x (deliver D ev r)"
  using assms
  by (rule deliver_invariant) (auto simp: teardown_once_def split: option.splits)

text \<open>
  What holds of the teardown. \<^verbatim>\<open>clear_\<close> removes the listener and releases the transport;
  on a reader that holds a transport it calls that transport's \<^verbatim>\<open>abort\<close>, entered with
  \<^verbatim>\<open>this.xhr_\<close> already \<^verbatim>\<open>null\<close>, and then its \<^verbatim>\<open>dispose\<close>, and on a reader that holds none
  it calls nothing; a second call changes nothing (and \<^verbatim>\<open>clear_\<close> has no step that
  throws). In every run of a reader \<^verbatim>\<open>abort\<close> and \<^verbatim>\<open>dispose\<close> have been called exactly once
  each, on the constructor's transport, as soon as the reader has released it, and not at
  all before; and it has released it after every notification that leaves a status other
  than \<^verbatim>\<open>INIT\<close> and \<^verbatim>\<open>ACTIVE\<close>, unless an exception has left \<^verbatim>\<open>readyStateChangeHandler_\<close>.
  A notification that reaches a reader without a transport returns at once and leaves it
  as it is.
\<close>

theorem clear_idempotent_single_issue:
  "clear (clear r) = clear r \<and>
   xhr (clear r) = None \<and> \<not> listening (clear r) \<and>
   history (clear r) =
     history r @ (case xhr r of None \<Rightarrow> [] | Some y \<Rightarrow> [AbortCalled y None, DisposeCalled y]) \<and>
   abort_calls (history (run D evs (reader_with x sh dh))) =
     (if xhr (run D evs (reader_with x sh dh)) = None then [x] else []) \<and>
   dispose_calls (history (run D evs (reader_with x sh dh))) =
     (if xhr (run D evs (reader_with x sh dh)) = None then [x] else []) \<and>
   list_all aborted_detached (history (run D evs (reader_with x sh dh))) \<and>
   (status (run D evs (reader_with x sh dh)) \<noteq> INIT \<and>
    status (run D evs (reader_with x sh dh)) \<noteq> ACTIVE \<and>
    ExceptionPropagated \<notin> set (history (run D evs (reader_with x sh dh))) \<longrightarrow>
      xhr (run D evs (reader_with x sh dh)) = None) \<and>
   readyStateChangeHandler D ev (r\<lparr>xhr := None\<rparr>) = Returned (r\<lparr>xhr := None\<rparr>)"
proof -
  have "teardown_once x (run D evs (reader_with x sh dh))"
    by (rule run_invariant) (simp add: teardown_once_def, rule teardown_once_deliver)
  moreover have "between_notifications (run D evs (reader_with x sh dh))"
    by (rule between_notifications_run)
  ultimately show ?thesis
    by (auto simp: teardown_once_def between_notifications_def clear_clear clear_history
        detached_ignores split: option.splits)
qed

text \<open>
  C8. The code does not do what the claim says of the number of calls. A complete response
  of content type \<^verbatim>\<open>application/x-protobuf\<close> with the transfer encoding \<^verbatim>\<open>gzip\<close> selects no
  parser. With no status handler the reader assigns \<^verbatim>\<open>BAD_DATA\<close> and tears down, with one
  \<^verbatim>\<open>abort\<close> and one \<^verbatim>\<open>dispose\<close>. With a status handler that throws whenever it is called,
  the \<^verbatim>\<open>catch\<close> of \<^verbatim>\<open>readyStateChangeHandler_\<close> calls the handler again, to tell it of
  \<^verbatim>\<open>HANDLER_EXCEPTION\<close>, before it calls \<^verbatim>\<open>clear_\<close> (lines 375-376): the exception leaves
  \<^verbatim>\<open>readyStateChangeHandler_\<close>, against the comment "no rethrow", the teardown is skipped,
  and the reader ends with a status greater than \<^verbatim>\<open>SUCCESS\<close>, still holding its transport
  and still listening, with no \<^verbatim>\<open>abort\<close> and no \<^verbatim>\<open>dispose\<close> at all.
\<close>

theorem teardown_skipped_after_rethrow:
  "status (run no_messages [gzip_complete] (reader_with 1 None None)) = BAD_DATA \<and>
   abort_calls (history (run no_messages [gzip_complete] (reader_with 1 None None))) = [1] \<and>
   dispose_calls (history (run no_messages [gzip_complete] (reader_with 1 None None))) = [1] \<and>
   status_writes (history (run no_messages [gzip_complete]
      (reader_with 1 (Some always_throws) None))) = [BAD_DATA, HANDLER_EXCEPTION] \<and>
   ExceptionPropagated \<in> set (history (run no_messages [gzip_complete]
      (reader_with 1 (Some always_throws) None))) \<and>
   status (run no_messages [gzip_complete] (reader_with 1 (Some always_throws) None)) =
     HANDLER_EXCEPTION \<and>
   abort_calls (history (run no_messages [gzip_complete]
      (reader_with 1 (Some always_throws) None))) = [] \<and>
   dispose_calls (history (run no_messages [gzip_complete]
      (reader_with 1 (Some always_throws) None))) = [] \<and>
   xhr (run no_messages [gzip_complete] (reader_with 1 (Some always_throws) None)) = Some 1 \<and>
   listening (run no_messages [gzip_complete] (reader_with 1 (Some always_throws) None))"
  by (simp add: reader_defs gzip_complete_def always_throws_def)


section \<open>After a failure\<close>

text \<open>
  C1, as the claim states it, fails: the request times out, \<^verbatim>\<open>TIMEOUT\<close> is assigned, and in
  the same notification the missing content type makes the reader assign \<^verbatim>\<open>BAD_DATA\<close>.
\<close>

theorem timeout_status_overwritten:
  "status_writes (history (deliver no_messages timeout_without_headers (reader_with 1 None None))) =
     [TIMEOUT, BAD_DATA] \<and>
   \<not> failure_status_final
     (status_writes (history (deliver no_messages timeout_without_headers (reader_with 1 None None))))"
  by (simp add: reader_defs timeout_without_headers_def)

text \<open>
  C1, amended. In every run of a reader, once a status greater than \<^verbatim>\<open>SUCCESS\<close> has been
  assigned the data handler is never called again and every status assigned later is
  greater than \<^verbatim>\<open>SUCCESS\<close> too; inside the notification that assigns it, its value may
  still change. After a notification that leaves a status greater than \<^verbatim>\<open>SUCCESS\<close>, unless
  an exception has left \<^verbatim>\<open>readyStateChangeHandler_\<close>, the reader has released its transport;
  and once it has, no notification changes anything: \<^verbatim>\<open>getStatus()\<close> returns that same
  value ever after.
\<close>

theorem failure_absorbs_and_teardown_is_final:
  "after_failure failed_and_silent (history (run D evs (reader_with x sh dh))) \<and>
   (terminal_failure (status (run D evs (reader_with x sh dh))) \<and>
    ExceptionPropagated \<notin> set (history (run D evs (reader_with x sh dh))) \<longrightarrow>
      xhr (run D evs (reader_with x sh dh)) = None) \<and>
   (xhr (run D evs (reader_with x sh dh)) = None \<longrightarrow>
      run D (evs @ later) (reader_with x sh dh) = run D evs (reader_with x sh dh) \<and>
      getStatus (run D (evs @ later) (reader_with x sh dh)) =
        getStatus (run D evs (reader_with x sh dh)))"
proof -
  have "after_failure quiet (history (run D evs (reader_with x sh dh)))"
    using failure_absorbed_run [of D evs x sh dh] by (simp add: failure_absorbed_def)
  then have "after_failure failed_and_silent (history (run D evs (reader_with x sh dh)))"
  proof (rule after_failure_mono)
    show "failed_and_silent e" if "quiet e" for e :: "'a event"
      using that by (cases e) simp_all
  qed
  moreover have "xhr (run D evs (reader_with x sh dh)) = None"
    if "terminal_failure (status (run D evs (reader_with x sh dh)))"
      "ExceptionPropagated \<notin> set (history (run D evs (reader_with x sh dh)))"
    using between_notifications_run [of D evs x sh dh] that
    by (auto simp: between_notifications_def terminal_failure_def)
  ultimately show ?thesis
    by (simp add: run_append detached_run)
qed

theorem failure_absorbs_and_teardown_is_final_witness:
  "after_failure failed_and_silent
     (history (run no_messages [timeout_without_headers] (reader_with 1 None None))) \<and>
   terminal_failure (status (run no_messages [timeout_without_headers] (reader_with 1 None None))) \<and>
   xhr (run no_messages [timeout_without_headers] (reader_with 1 None None)) = None \<and>
   run no_messages ([timeout_without_headers] @ [json_chunk]) (reader_with 1 None None) =
     run no_messages [timeout_without_headers] (reader_with 1 None None) \<and>
   getStatus (run no_messages ([timeout_without_headers] @ [json_chunk]) (reader_with 1 None None)) =
     BAD_DATA"
proof -
  have computed:
    "terminal_failure (status (run no_messages [timeout_without_headers] (reader_with 1 None None)))"
    "ExceptionPropagated \<notin>
       set (history (run no_messages [timeout_without_headers] (reader_with 1 None None)))"
    "getStatus (run no_messages [timeout_without_headers] (reader_with 1 None None)) = BAD_DATA"
    by (simp_all add: reader_defs getStatus_def timeout_without_headers_def)
  with failure_absorbs_and_teardown_is_final
         [of no_messages "[timeout_without_headers]" 1 None None "[json_chunk]"]
  show ?thesis
    by simp
qed
section \<open>The order of the statuses\<close>

text \<open>
  C2, as the claim states it, fails: the application aborts the request, \<^verbatim>\<open>CANCELLED\<close> (8)
  is assigned, and in the same notification the missing content type makes the reader
  assign the smaller \<^verbatim>\<open>BAD_DATA\<close> (5).
\<close>

theorem cancelled_status_lowered:
  "status_writes (history (deliver no_messages abort_without_headers (reader_with 1 None None))) =
     [CANCELLED, BAD_DATA] \<and>
   \<not> never_lowered
     (status_writes (history (deliver no_messages abort_without_headers (reader_with 1 None None))))"
  by (simp add: reader_defs abort_without_headers_def never_lowered_def)

text \<open>
  C2, amended. In every run of a reader, up to the first exception that leaves
  \<^verbatim>\<open>readyStateChangeHandler_\<close> (the whole run, when there is none), an assignment of the
  status lowers it only when it replaces \<^verbatim>\<open>TIMEOUT\<close> or \<^verbatim>\<open>CANCELLED\<close> by \<^verbatim>\<open>BAD_DATA\<close> or
  \<^verbatim>\<open>HANDLER_EXCEPTION\<close>; every other assignment keeps or raises it. Once a status greater
  than \<^verbatim>\<open>SUCCESS\<close> has been assigned the parser is never called again. After every
  notification, a reader whose status is greater than \<^verbatim>\<open>SUCCESS\<close> has released its
  transport, unless an exception has left \<^verbatim>\<open>readyStateChangeHandler_\<close>.
\<close>

theorem status_order_and_teardown:
  "chain allowed_write INIT
     (status_writes (before_escape (history (run D evs (reader_with x sh dh))))) \<and>
   after_failure not_decoding (history (run D evs (reader_with x sh dh))) \<and>
   (terminal_failure (status (run D evs (reader_with x sh dh))) \<longrightarrow>
      xhr (run D evs (reader_with x sh dh)) = None \<or>
      ExceptionPropagated \<in> set (history (run D evs (reader_with x sh dh))))"
proof -
  let ?r = "run D evs (reader_with x sh dh)"
  have "after_failure quiet (history ?r)"
    using failure_absorbed_run [of D evs x sh dh] by (simp add: failure_absorbed_def)
  then have "after_failure not_decoding (history ?r)"
  proof (rule after_failure_mono)
    show "not_decoding e" if "quiet e" for e :: "'a event"
      using that by (cases e) simp_all
  qed
  moreover have "between_notifications ?r"
    by (rule between_notifications_run)
  ultimately show ?thesis
    by (auto simp: between_notifications_def terminal_failure_def)
qed

theorem status_order_and_teardown_witness:
  "before_escape (history (run no_messages [abort_without_headers] (reader_with 1 None None))) =
     history (run no_messages [abort_without_headers] (reader_with 1 None None)) \<and>
   status_writes (history (run no_messages [abort_without_headers] (reader_with 1 None None))) =
     [CANCELLED, BAD_DATA] \<and>
   chain allowed_write INIT
     (status_writes (before_escape
        (history (run no_messages [abort_without_headers] (reader_with 1 None None))))) \<and>
   after_failure not_decoding
     (history (run no_messages [abort_without_headers] (reader_with 1 None None))) \<and>
   terminal_failure (status (run no_messages [abort_without_headers] (reader_with 1 None None))) \<and>
   xhr (run no_messages [abort_without_headers] (reader_with 1 None None)) = None"
proof -
  have "terminal_failure (status (run no_messages [abort_without_headers] (reader_with 1 None None)))"
    and "ExceptionPropagated \<notin>
      set (history (run no_messages [abort_without_headers] (reader_with 1 None None)))"
    and "before_escape (history (run no_messages [abort_without_headers] (reader_with 1 None None))) =
      history (run no_messages [abort_without_headers] (reader_with 1 None None))"
    and "status_writes (history (run no_messages [abort_without_headers] (reader_with 1 None None))) =
      [CANCELLED, BAD_DATA]"
    by (simp_all add: reader_defs abort_without_headers_def)
  with status_order_and_teardown [of no_messages "[abort_without_headers]" 1 None None]
  show ?thesis
    by blast
qed


section \<open>The read cursor\<close>

lemma cursor_step:
  fixes r :: "'m XhrStreamReader"
  shows "(pos (deliver D ev r) = pos r \<or>
          pos r < length (responseText ev) \<and> pos (deliver D ev r) = length (responseText ev)) \<and>
         parse_calls (history (deliver D ev r)) =
           parse_calls (history r) @
             (if pos (deliver D ev r) = pos r then [] else [drop (pos r) (responseText ev)])"
  by (rule deliver_invariant [where K = "\<lambda>q.
        (pos q = pos r \<or> pos r < length (responseText ev) \<and> pos q = length (responseText ev)) \<and>
        parse_calls (history q) =
          parse_calls (history r) @ (if pos q = pos r then [] else [drop (pos r) (responseText ev)])"])
     auto

lemma cursor_grows: "pos r \<le> pos (deliver D ev r)"
  using cursor_step [of D ev r] by auto

lemma cursor_within: "pos r \<le> length (responseText ev) \<Longrightarrow> pos (deliver D ev r) \<le> length (responseText ev)"
  using cursor_step [of D ev r] by auto

lemma cursors_sorted: "sorted (pos r # cursors D evs r)"
proof (induction evs arbitrary: r)
  case Nil
  show ?case by simp
next
  case (Cons ev evs)
  from Cons [of "deliver D ev r"] cursor_grows [of r D ev] show ?case
    by auto
qed

lemma cursors_bounded:
  assumes "sorted (map (\<lambda>ev. length (responseText ev)) evs)"
    and "\<forall>ev \<in> set evs. pos r \<le> length (responseText ev)"
  shows "list_all2 (\<le>) (cursors D evs r) (map (\<lambda>ev. length (responseText ev)) evs)"
  using assms
proof (induction evs arbitrary: r)
  case Nil
  show ?case by simp
next
  case (Cons ev evs)
  have here: "pos (deliver D ev r) \<le> length (responseText ev)"
    using Cons.prems(2) by (intro cursor_within) simp
  have "list_all2 (\<le>) (cursors D evs (deliver D ev r)) (map (\<lambda>ev. length (responseText ev)) evs)"
  proof (rule Cons.IH)
    show "sorted (map (\<lambda>ev. length (responseText ev)) evs)"
      using Cons.prems(1) by simp
    show "\<forall>e \<in> set evs. pos (deliver D ev r) \<le> length (responseText e)"
      using Cons.prems(1) here by fastforce
  qed
  with here show ?case
    by simp
qed

lemma slices_sum:
  "sum_list (map length (parse_calls (history r))) = pos r \<Longrightarrow>
   sum_list (map length (parse_calls (history (deliver D ev r)))) = pos (deliver D ev r)"
  using cursor_step [of D ev r] by auto

lemma slices_concat:
  assumes "concat (parse_calls (history r)) = take (pos r) whole"
    and "prefix (responseText ev) whole"
  shows "concat (parse_calls (history (deliver D ev r))) = take (pos (deliver D ev r)) whole"
proof (cases "pos (deliver D ev r) = pos r")
  case True
  then show ?thesis
    using cursor_step [of D ev r] assms(1) by simp
next
  case False
  from assms(2) obtain rest where whole: "whole = responseText ev @ rest"
    by (auto simp: prefix_def)
  from False cursor_step [of D ev r]
  have adv: "pos r < length (responseText ev)" "pos (deliver D ev r) = length (responseText ev)"
    and calls: "parse_calls (history (deliver D ev r)) =
                  parse_calls (history r) @ [drop (pos r) (responseText ev)]"
    by auto
  have "take (pos r) whole @ drop (pos r) (responseText ev) = responseText ev"
    using adv(1) by (simp add: whole)
  then show ?thesis
    by (simp add: calls assms(1) adv(2)) (simp add: whole)
qed

lemma slices_concat_run:
  assumes "concat (parse_calls (history r)) = take (pos r) whole"
    and "\<forall>ev \<in> set evs. prefix (responseText ev) whole"
  shows "concat (parse_calls (history (run D evs r))) = take (pos (run D evs r)) whole"
  using assms by (induction evs arbitrary: r) (simp_all add: slices_concat)

text \<open>
  C6. In every run of a reader the read cursor never decreases, and when the lengths of
  the response texts never decrease, the cursor after each notification is at most the
  length of that notification's response text. A notification hands the parser nothing
  and leaves the cursor, or hands it the response text from the cursor on and moves the
  cursor to the end of the text; so the lengths of the slices handed over add up to the
  cursor, and when every response text is a prefix of the whole response, the slices
  handed over are, end to end, the whole response up to the cursor: no character is
  handed over twice.
\<close>

theorem cursor_monotone_and_bounded:
  "sorted (0 # cursors D evs (reader_with x sh dh)) \<and>
   (sorted (map (\<lambda>ev. length (responseText ev)) evs) \<longrightarrow>
      list_all2 (\<le>) (cursors D evs (reader_with x sh dh))
        (map (\<lambda>ev. length (responseText ev)) evs)) \<and>
   (pos (deliver D ev r) = pos r \<or>
    pos r < length (responseText ev) \<and> pos (deliver D ev r) = length (responseText ev)) \<and>
   parse_calls (history (deliver D ev r)) =
     parse_calls (history r) @
       (if pos (deliver D ev r) = pos r then [] else [drop (pos r) (responseText ev)]) \<and>
   sum_list (map length (parse_calls (history (run D evs (reader_with x sh dh))))) =
     pos (run D evs (reader_with x sh dh)) \<and>
   ((\<forall>e \<in> set evs. prefix (responseText e) whole) \<longrightarrow>
      concat (parse_calls (history (run D evs (reader_with x sh dh)))) =
        take (pos (run D evs (reader_with x sh dh))) whole)"
proof -
  let ?r0 = "reader_with x sh dh :: 'a XhrStreamReader"
  have a: "sorted (0 # cursors D evs ?r0)"
    using cursors_sorted [of ?r0 D evs] by simp
  have b: "list_all2 (\<le>) (cursors D evs ?r0) (map (\<lambda>ev. length (responseText ev)) evs)"
    if "sorted (map (\<lambda>ev. length (responseText ev)) evs)"
    using that by (rule cursors_bounded) simp
  have c: "sum_list (map length (parse_calls (history (run D evs ?r0)))) = pos (run D evs ?r0)"
    by (rule run_invariant) (simp, rule slices_sum)
  have d: "concat (parse_calls (history (run D evs ?r0))) = take (pos (run D evs ?r0)) whole"
    if "\<forall>e \<in> set evs. prefix (responseText e) whole"
    using _ that by (rule slices_concat_run) simp
  from a b c d cursor_step [of D ev r] show ?thesis
    by blast
qed

theorem cursor_monotone_and_bounded_witness:
  "cursors no_messages [json_chunk, json_complete] (reader_with 1 None None) = [3, 5] \<and>
   sorted (0 # cursors no_messages [json_chunk, json_complete] (reader_with 1 None None)) \<and>
   list_all2 (\<le>) (cursors no_messages [json_chunk, json_complete] (reader_with 1 None None))
     (map (\<lambda>ev. length (responseText ev)) [json_chunk, json_complete]) \<and>
   parse_calls (history (run no_messages [json_chunk, json_complete] (reader_with 1 None None))) =
     [''[1,'', ''2]''] \<and>
   concat (parse_calls
      (history (run no_messages [json_chunk, json_complete] (reader_with 1 None None)))) =
     take (pos (run no_messages [json_chunk, json_complete] (reader_with 1 None None))) ''[1,2]''"
proof -
  have lengths: "sorted (map (\<lambda>ev. length (responseText ev)) [json_chunk, json_complete])"
    by (simp add: json_chunk_def json_complete_def)
  have prefixes: "\<forall>e \<in> set [json_chunk, json_complete]. prefix (responseText e) ''[1,2]''"
    by (simp add: json_chunk_def json_complete_def)
  have computed: "cursors no_messages [json_chunk, json_complete] (reader_with 1 None None) = [3, 5]"
    "parse_calls (history (run no_messages [json_chunk, json_complete] (reader_with 1 None None))) =
       [''[1,'', ''2]'']"
    by (simp_all add: reader_defs json_chunk_def json_complete_def no_messages_def)
  from cursor_monotone_and_bounded
         [of no_messages "[json_chunk, json_complete]" 1 None None json_chunk
             "reader_with 1 None None" "''[1,2]''"]
       lengths prefixes computed
  show ?thesis
    by blast
qed

section \<open>A response that is not successful\<close>




section \<open>A network failure without a parser\<close>




section \<open>Delivering the messages\<close>

text \<open>
  One notification that reaches the parsing step: a notification of the reader's transport
  that is not deferred and carries no network failure, with a reader whose status is at
  most \<^verbatim>\<open>SUCCESS\<close>, that has a parser or is given one by the response headers, and with
  response text beyond the cursor. The parser is called once, with the text from the
  cursor on, and when it does not throw, its result goes to the data handler exactly when
  it is not \<^verbatim>\<open>null\<close> (line 205) and a data handler is registered (line 206).
\<close>

lemma parse_result_delivered:
  fixes r :: "'m XhrStreamReader"
  assumes own: "xhr r = Some (target ev)"
    and now: "\<not> deferred ev"
    and cls: "classification ev = None"
    and ok: "status_num (status r) \<le> status_num SUCCESS"
    and avail: "(case parser r of Some p \<Rightarrow> Some p | None \<Rightarrow> getParserByResponseHeader ev) = Some p"
    and new: "pos r < length (responseText ev)"
    and result: "D (kind p) (fed p) (drop (pos r) (responseText ev)) = result"
    and parsed: "result \<noteq> ParseThrows"
  shows "parse_calls (history (state_of (readyStateChangeHandler D ev r))) =
           parse_calls (history r) @ [drop (pos r) (responseText ev)] \<and>
         data_handler_calls (history (state_of (readyStateChangeHandler D ev r))) =
           data_handler_calls (history r) @
             (case result of
                ParseMessages ms \<Rightarrow> (case dataHandler r of None \<Rightarrow> [] | Some h \<Rightarrow> [ms])
              | _ \<Rightarrow> [])"
proof -
  have live: "xhr r \<noteq> None"
    using own by simp
  define delivered where "delivered = (\<lambda>q :: 'm XhrStreamReader.
    parse_calls (history q) = parse_calls (history r) @ [drop (pos r) (responseText ev)] \<and>
    data_handler_calls (history q) =
      data_handler_calls (history r) @
        (case result of
           ParseMessages ms \<Rightarrow> (case dataHandler r of None \<Rightarrow> [] | Some h \<Rightarrow> [ms])
         | _ \<Rightarrow> []))"
  define parsing where "parsing = (\<lambda>q :: 'm XhrStreamReader.
    parse_calls (history q) = parse_calls (history r) \<and>
    data_handler_calls (history q) = data_handler_calls (history r) \<and>
    pos q = pos r \<and> status q = status r \<and> dataHandler q = dataHandler r \<and>
    parser q = Some p)"
  have fin: "post (finishNotification ev q) delivered delivered" if "delivered q" for q
    using that by (intro post_state_of) (simp_all add: delivered_def)
  have bad: "post (updateStatus BAD_DATA q) (\<lambda>r6. delivered (clear r6)) delivered"
    if "delivered q" for q
    using that by (intro post_state_of) (simp_all add: delivered_def)
  have body: "post (onReadyStateChanged D ev r) delivered delivered"
  proof (rule onReadyStateChanged_post [where ?A1.0 = "\<lambda>q. q = r" and ?A2.0 = parsing,
        OF _ _ _ _ _ _ _ _ _ live])
    show "delivered r" if "deferred ev"
      using that now by simp
    show "post (updateStatus s r) (\<lambda>q. q = r) delivered" if "classification ev = Some s" for s
      using that cls by simp
    show "r = r" ..
    show "parsing r1" if "r1 = r" "parser r1 \<noteq> None" for r1
      using that avail by (auto simp: parsing_def)
    show "parsing (emit (SelectionComputed (Some (kind p'))) (r1\<lparr>parser := Some p'\<rparr>))"
      if "r1 = r" "parser r1 = None" "getParserByResponseHeader ev = Some p'" for r1 p'
      using that avail by (simp add: parsing_def)
    show "post (updateStatus BAD_DATA (emit (SelectionComputed None) r1))
            (\<lambda>r3. delivered (clear r3)) delivered"
      if "r1 = r" "parser r1 = None" "getParserByResponseHeader ev = None" for r1
      using that avail by simp
    show "delivered (clear r3)"
      if "parsing r3" "status_num SUCCESS < status_num (status r3)" for r3
      using that ok by (simp add: parsing_def)
    show "post (finishNotification ev r3) delivered delivered"
      if "parsing r3" "\<not> pos r3 < length (responseText ev)" for r3
      using that new by (simp add: parsing_def)
    show "post (parseAndDeliver D (drop (pos r3) (responseText ev))
                   (r3\<lparr>pos := length (responseText ev)\<rparr>))
             (\<lambda>r5. post (finishNotification ev r5) delivered delivered)
             (\<lambda>r5. post (updateStatus BAD_DATA r5) (\<lambda>r6. delivered (clear r6)) delivered)"
      if "parsing r3" for r3
    proof -
      have "post (parseAndDeliver D (drop (pos r3) (responseText ev))
                   (r3\<lparr>pos := length (responseText ev)\<rparr>)) delivered delivered"
        using that result parsed
        by (intro parseAndDeliver_post) (auto simp: parsing_def delivered_def)
      then show ?thesis
        by (rule post_mono) (simp_all add: fin bad)
    qed
  qed
  have "delivered (state_of (readyStateChangeHandler D ev r))"
  proof (cases "onReadyStateChanged D ev r")
    case (Returned q)
    with body show ?thesis
      by (simp add: handler_of_body [OF own] delivered_def)
  next
    case (Threw q)
    with body show ?thesis
      by (simp add: handler_of_body [OF own] delivered_def)
  qed
  then show ?thesis
    by (simp add: delivered_def)
qed

text \<open>
  C3. The parser classes are not among these sources, so the parser is a parameter, and
  what it returns is a hypothesis: the messages that the new text completes, in their
  order, and \<^verbatim>\<open>null\<close>, never an empty array, when it completes none, so that the empty
  message sequence is \<^verbatim>\<open>null\<close>. For every notification that reaches the parsing step (see
  above) with a result of this kind that is not an exception, the parser is called once
  with the new slice, and the registered data handler is called if and only if the message
  sequence is not empty, and then once, with the whole sequence in the parser's order;
  with an empty sequence, or with no data handler registered, nothing is called.
\<close>

theorem data_handler_called_iff_messages:
  fixes r :: "'m XhrStreamReader"
  assumes own: "xhr r = Some (target ev)"
    and now: "\<not> deferred ev"
    and cls: "classification ev = None"
    and ok: "status_num (status r) \<le> status_num SUCCESS"
    and avail: "(case parser r of Some p \<Rightarrow> Some p | None \<Rightarrow> getParserByResponseHeader ev) = Some p"
    and new: "pos r < length (responseText ev)"
    and result: "D (kind p) (fed p) (drop (pos r) (responseText ev)) = result"
    and parsed: "result \<noteq> ParseThrows"
    and contract: "result \<noteq> ParseMessages []"
  shows "parse_calls (history (state_of (readyStateChangeHandler D ev r))) =
           parse_calls (history r) @ [drop (pos r) (responseText ev)] \<and>
         data_handler_calls (history (state_of (readyStateChangeHandler D ev r))) =
           data_handler_calls (history r) @
             (if messages_of result \<noteq> [] \<and> dataHandler r \<noteq> None
              then [messages_of result] else [])"
proof -
  have "(case result of
        ParseMessages ms \<Rightarrow> (case dataHandler r of None \<Rightarrow> [] | Some h \<Rightarrow> [ms])
      | _ \<Rightarrow> []) =
      (if messages_of result \<noteq> [] \<and> dataHandler r \<noteq> None then [messages_of result] else [])"
    using contract by (cases result) (auto split: option.splits)
  with parse_result_delivered [where D = D and p = p, OF own now cls ok avail new result parsed]
  show ?thesis
    by simp
qed

theorem data_handler_called_iff_messages_witness:
  "parse_calls (history (state_of (readyStateChangeHandler one_message json_rows
      (reader_with 1 None (Some accepts))))) = [''[[7],''] \<and>
   data_handler_calls (history (state_of (readyStateChangeHandler one_message json_rows
      (reader_with 1 None (Some accepts))))) = [[[7]]]"
proof -
  have facts: "xhr (reader_with 1 None (Some accepts)) = Some (target json_rows)"
    "\<not> deferred json_rows"
    "classification json_rows = None"
    "status_num (status (reader_with 1 None (Some accepts))) \<le> status_num SUCCESS"
    "(case parser (reader_with 1 None (Some accepts)) of Some p \<Rightarrow> Some p
      | None \<Rightarrow> getParserByResponseHeader json_rows) = Some (new_parser JsonStreamParser)"
    "pos (reader_with 1 None (Some accepts)) < length (responseText json_rows)"
    "one_message (kind (new_parser JsonStreamParser)) (fed (new_parser JsonStreamParser))
       (drop (pos (reader_with 1 None (Some accepts))) (responseText json_rows)) =
       ParseMessages [[7]]"
    "ParseMessages [[7]] \<noteq> (ParseThrows :: nat list parse_result)"
    "ParseMessages [[7]] \<noteq> (ParseMessages [] :: nat list parse_result)"
    by (simp_all add: json_rows_def deferred_def classification_def getParserByResponseHeader_def
        new_parser_def toLowerCase_def toLowerCase_char_def startsWith_def HttpStatus_OK_def
        one_message_def)
  from data_handler_called_iff_messages
         [where D = one_message and p = "new_parser JsonStreamParser", OF facts]
  show ?thesis
    by (simp add: json_rows_def)
qed


section \<open>The selection of the decoder\<close>

lemma startsWith_prefix: "startsWith str pre = prefix pre str"
proof
  assume "startsWith str pre"
  then have "str = pre @ drop (length pre) str"
    by (metis startsWith_def append_take_drop_id)
  then show "prefix pre str"
    by (metis prefixI)
next
  assume "prefix pre str"
  then show "startsWith str pre"
    by (auto simp: prefix_def startsWith_def)
qed

lemma selection_refines_spec:
  "getParserByResponseHeader ev =
     map_option new_parser
       (spec_decoder_selection (contentType ev) (contentTransferEncoding ev))"
proof -
  have "prefix ''application/json'' ''application/json+protobuf''"
    by simp
  then have more: "prefix ''application/json'' l" if "prefix ''application/json+protobuf'' l" for l
    using that by (rule prefix_order.trans)
  have empty: "\<not> prefix ''application/json'' (toLowerCase [])"
    "\<not> prefix ''application/x-protobuf'' (toLowerCase [])"
    by (simp_all add: toLowerCase_def)
  show ?thesis
    using more empty
    by (auto simp: getParserByResponseHeader_def spec_decoder_selection_def startsWith_prefix
        Let_def split: option.splits)
qed

lemma selected_once_single [simp]: "selected_once [k]"
  by (cases k) simp_all

lemma selected_once_snoc:
  "selected_once ks \<Longrightarrow> last (None # ks) = None \<Longrightarrow> selected_once (ks @ [k])"
  by (induction ks rule: selected_once.induct) (auto split: if_splits)

lemma parser_class_kept:
  fixes r :: "'m XhrStreamReader"
  assumes "map_option kind (parser r) = Some k"
  shows "map_option kind (parser (deliver D ev r)) = Some k"
  using assms by (rule deliver_invariant) auto

lemma selection_failure_sets_bad_data:
  fixes r :: "'m XhrStreamReader"
  assumes live: "xhr r \<noteq> None" and no_parser: "parser r = None"
    and none: "getParserByResponseHeader ev = None"
  shows "post (onReadyStateChanged D ev r)
           (\<lambda>q. deferred ev \<and> q = r \<or>
                selections (history q) = selections (history r) @ [None] \<and>
                status q = BAD_DATA \<and> xhr q = None)
           (\<lambda>q. selections (history q) = selections (history r) \<or>
                selections (history q) = selections (history r) @ [None] \<and> status q = BAD_DATA)"
proof (rule onReadyStateChanged_post [where ?A2.0 = "\<lambda>q. False"
      and ?A1.0 = "\<lambda>q. selections (history q) = selections (history r) \<and> parser q = None",
      OF _ _ _ _ _ _ _ _ _ live])
  show "post (updateStatus s r)
          (\<lambda>q. selections (history q) = selections (history r) \<and> parser q = None)
          (\<lambda>q. selections (history q) = selections (history r) \<or>
               selections (history q) = selections (history r) @ [None] \<and> status q = BAD_DATA)"
    for s
    using no_parser by (intro post_state_of) simp_all
  show "post (updateStatus BAD_DATA (emit (SelectionComputed None) r1))
          (\<lambda>r3. deferred ev \<and> clear r3 = r \<or>
                selections (history (clear r3)) = selections (history r) @ [None] \<and>
                status (clear r3) = BAD_DATA \<and> xhr (clear r3) = None)
          (\<lambda>q. selections (history q) = selections (history r) \<or>
               selections (history q) = selections (history r) @ [None] \<and> status q = BAD_DATA)"
    if "selections (history r1) = selections (history r) \<and> parser r1 = None" for r1
    using that by (intro post_state_of) simp_all
qed (use no_parser none in simp_all)

lemma selection_finish:
  assumes "selection_pending q"
  shows "post (finishNotification ev q) selection_between selection_interrupted"
  using assms
  by (intro finishNotification_post post_state_of)
     (auto simp: selection_pending_def selection_between_def selection_interrupted_def
        selection_tracked_def)

lemma selection_report:
  assumes "selection_interrupted q"
  shows "post (updateStatus s q) (\<lambda>r1. selection_between (clear r1)) selection_interrupted"
  using assms
  by (intro post_state_of)
     (auto simp: selection_between_def selection_interrupted_def selection_tracked_def)

lemma selection_pending_interrupted: "selection_pending q \<Longrightarrow> selection_interrupted q"
  by (auto simp: selection_pending_def selection_interrupted_def)

lemma selection_pending_nothing_yet:
  assumes "selection_pending q" and "parser q = None"
    and "ExceptionPropagated \<notin> set (history q)"
  shows "selections (history q) = []"
proof (cases "selections (history q)")
  case Nil
  then show ?thesis .
next
  case (Cons k ks)
  with assms have "ks = []" "k \<noteq> None" "last (None # k # ks) = None"
    by (auto simp: selection_pending_def selection_tracked_def)
  then show ?thesis
    by simp
qed

lemma onReadyStateChanged_selection:
  fixes r :: "'m XhrStreamReader"
  assumes b: "selection_between r" and live: "xhr r \<noteq> None"
  shows "post (onReadyStateChanged D ev r) selection_between selection_interrupted"
proof (rule onReadyStateChanged_post [where ?A1.0 = selection_pending
      and ?A2.0 = selection_pending, OF _ _ _ _ _ _ _ _ _ live])
  have p: "selection_pending r"
    using b live by (auto simp: selection_between_def selection_pending_def)
  show "selection_between r" by fact
  show "selection_pending r" by fact
  show "post (updateStatus s r) selection_pending selection_interrupted" for s
    using p
    by (intro post_state_of)
       (auto simp: selection_pending_def selection_interrupted_def selection_tracked_def)
  show "selection_pending r1" if "selection_pending r1" for r1 :: "'m XhrStreamReader" by fact
  show "selection_pending (emit (SelectionComputed (Some (kind p))) (r1\<lparr>parser := Some p\<rparr>))"
    if "selection_pending r1" "parser r1 = None" for r1 :: "'m XhrStreamReader" and p
  proof (cases "ExceptionPropagated \<in> set (history r1)")
    case True
    with that show ?thesis
      by (auto simp: selection_pending_def selection_tracked_def selected_once_snoc)
  next
    case False
    with that have "selections (history r1) = []"
      by (intro selection_pending_nothing_yet)
    with that show ?thesis
      by (simp add: selection_pending_def selection_tracked_def)
  qed
  show "post (updateStatus BAD_DATA (emit (SelectionComputed None) r1))
          (\<lambda>r3. selection_between (clear r3)) selection_interrupted"
    if "selection_pending r1" "parser r1 = None" for r1 :: "'m XhrStreamReader"
  proof (rule selection_report, cases "ExceptionPropagated \<in> set (history r1)")
    case True
    with that show "selection_interrupted (emit (SelectionComputed None) r1)"
      by (auto simp: selection_pending_def selection_interrupted_def selection_tracked_def
          selected_once_snoc)
  next
    case False
    with that have "selections (history r1) = []"
      by (intro selection_pending_nothing_yet)
    with that show "selection_interrupted (emit (SelectionComputed None) r1)"
      by (simp add: selection_pending_def selection_interrupted_def selection_tracked_def)
  qed
  show "selection_between (clear r3)" if "selection_pending r3" for r3 :: "'m XhrStreamReader"
    using that
    by (auto simp: selection_pending_def selection_between_def selection_tracked_def)
  show "post (finishNotification ev r3) selection_between selection_interrupted"
    if "selection_pending r3" for r3 :: "'m XhrStreamReader"
    using that by (rule selection_finish)
  show "post (parseAndDeliver D (drop (pos r3) (responseText ev))
                   (r3\<lparr>pos := length (responseText ev)\<rparr>))
             (\<lambda>r5. post (finishNotification ev r5) selection_between selection_interrupted)
             (\<lambda>r5. post (updateStatus BAD_DATA r5)
                     (\<lambda>r6. selection_between (clear r6)) selection_interrupted)"
    if "selection_pending r3" for r3 :: "'m XhrStreamReader"
  proof -
    have "post (parseAndDeliver D (drop (pos r3) (responseText ev))
                  (r3\<lparr>pos := length (responseText ev)\<rparr>)) selection_pending selection_pending"
      using that
      by (intro parseAndDeliver_post) (auto simp: selection_pending_def selection_tracked_def)
    then show ?thesis
      by (rule post_mono)
         (simp_all add: selection_finish selection_report selection_pending_interrupted)
  qed
qed

lemma selection_between_deliver:
  fixes r :: "'m XhrStreamReader"
  assumes b: "selection_between r" and t: "teardown_once x r"
  shows "selection_between (deliver D ev r)"
proof (rule deliver_post)
  show "selection_between r" by fact
  assume "listening r"
  then have live: "xhr r \<noteq> None"
    using t by (simp add: teardown_once_def)
  have "post (readyStateChangeHandler D ev r) selection_between selection_interrupted"
  proof (rule readyStateChangeHandler_post)
    show "selection_between r" by fact
    from onReadyStateChanged_selection [OF b live]
    show "post (onReadyStateChanged D ev r) selection_between
            (\<lambda>r1. post (updateStatus HANDLER_EXCEPTION r1)
                    (\<lambda>r2. selection_between (clear r2)) selection_interrupted)"
      by (rule post_mono) (simp_all add: selection_report)
  qed
  then show "post (readyStateChangeHandler D ev r) selection_between
               (\<lambda>r1. selection_between (emit ExceptionPropagated r1))"
    by (rule post_mono)
       (auto simp: selection_interrupted_def selection_between_def selection_tracked_def)
qed

lemma selection_between_run:
  "selection_between (run D evs (reader_with x sh dh))"
proof -
  have "selection_between (run D evs r) \<and> teardown_once x (run D evs r)"
    if "selection_between r" "teardown_once x r" for r :: "'a XhrStreamReader"
    using that
    by (induction evs arbitrary: r) (simp_all add: selection_between_deliver teardown_once_deliver)
  moreover have "selection_between (reader_with x sh dh)" "teardown_once x (reader_with x sh dh)"
    by (simp_all add: selection_between_def selection_tracked_def teardown_once_def)
  ultimately show ?thesis
    by blast
qed

text \<open>
  What holds of the selection. It is the function of the content type and the content
  transfer encoding that the spec describes. When a notification of the reader's transport
  computes it and it selects nothing, \<^verbatim>\<open>BAD_DATA\<close> is assigned: \<^verbatim>\<open>onReadyStateChanged_\<close>
  ends with that status, and when it returns the reader has released its transport. In
  every run of a reader nothing is selected after a selection that selected a parser, and
  the parser keeps its class; and as long as no exception has left
  \<^verbatim>\<open>readyStateChangeHandler_\<close>, the selection has been computed at most once.
\<close>

theorem decoder_selected_from_headers:
  "getParserByResponseHeader ev =
     map_option new_parser
       (spec_decoder_selection (contentType ev) (contentTransferEncoding ev)) \<and>
   (xhr r = Some (target ev) \<and> \<not> deferred ev \<and> parser r = None \<and>
    getParserByResponseHeader ev = None \<longrightarrow>
      (selections (history (state_of (onReadyStateChanged D ev r))) \<noteq> selections (history r) \<longrightarrow>
         selections (history (state_of (onReadyStateChanged D ev r))) =
           selections (history r) @ [None] \<and>
         status (state_of (onReadyStateChanged D ev r)) = BAD_DATA) \<and>
      (\<not> threw (onReadyStateChanged D ev r) \<longrightarrow>
         selections (history (state_of (onReadyStateChanged D ev r))) =
           selections (history r) @ [None] \<and>
         status (state_of (onReadyStateChanged D ev r)) = BAD_DATA \<and>
         xhr (state_of (onReadyStateChanged D ev r)) = None)) \<and>
   selected_once (selections (history (run D evs (reader_with x sh dh)))) \<and>
   (map_option kind (parser (run D evs (reader_with x sh dh))) = Some k \<longrightarrow>
      map_option kind (parser (run D (evs @ later) (reader_with x sh dh))) = Some k) \<and>
   (ExceptionPropagated \<notin> set (history (run D evs (reader_with x sh dh))) \<longrightarrow>
      length (selections (history (run D evs (reader_with x sh dh)))) \<le> 1)"
proof -
  let ?r = "run D evs (reader_with x sh dh)"
  have failure: "(selections (history (state_of (onReadyStateChanged D ev r))) \<noteq> selections (history r) \<longrightarrow>
         selections (history (state_of (onReadyStateChanged D ev r))) =
           selections (history r) @ [None] \<and>
         status (state_of (onReadyStateChanged D ev r)) = BAD_DATA) \<and>
      (\<not> threw (onReadyStateChanged D ev r) \<longrightarrow>
         selections (history (state_of (onReadyStateChanged D ev r))) =
           selections (history r) @ [None] \<and>
         status (state_of (onReadyStateChanged D ev r)) = BAD_DATA \<and>
         xhr (state_of (onReadyStateChanged D ev r)) = None)"
    if "xhr r = Some (target ev)" "\<not> deferred ev" "parser r = None"
      "getParserByResponseHeader ev = None"
  proof -
    have "xhr r \<noteq> None"
      using that(1) by simp
    from selection_failure_sets_bad_data [OF this that(3,4), of D] that(2) show ?thesis
      by (cases "onReadyStateChanged D ev r") auto
  qed
  have kept: "map_option kind (parser (run D es q)) = Some k"
    if "map_option kind (parser q) = Some k" for q :: "'a XhrStreamReader" and es
    using that
  proof (induction es arbitrary: q)
    case Nil
    then show ?case by simp
  next
    case (Cons e es)
    from Cons.prems have "map_option kind (parser (deliver D e q)) = Some k"
      by (rule parser_class_kept)
    then have "map_option kind (parser (run D es (deliver D e q))) = Some k"
      by (rule Cons.IH)
    then show ?case by simp
  qed
  have between: "selection_between ?r"
    by (rule selection_between_run)
  then have once: "selected_once (selections (history ?r))"
    by (simp add: selection_between_def selection_tracked_def)
  have few: "length (selections (history ?r)) \<le> 1"
    if "ExceptionPropagated \<notin> set (history ?r)"
    using between that by (simp add: selection_between_def)
  have later: "map_option kind (parser (run D (evs @ later) (reader_with x sh dh))) = Some k"
    if "map_option kind (parser ?r) = Some k"
    using kept [OF that, of later] by (simp only: run_append)
  from selection_refines_spec [of ev] failure once later few show ?thesis
    by blast
qed

theorem decoder_selected_from_headers_witness:
  "getParserByResponseHeader chunk_without_headers =
     map_option new_parser
       (spec_decoder_selection (contentType chunk_without_headers)
          (contentTransferEncoding chunk_without_headers)) \<and>
   status (state_of (onReadyStateChanged no_messages chunk_without_headers
      (reader_with 1 None None))) = BAD_DATA \<and>
   xhr (state_of (onReadyStateChanged no_messages chunk_without_headers
      (reader_with 1 None None))) = None \<and>
   selections (history (run no_messages [json_chunk] (reader_with 1 None None))) =
     [Some JsonStreamParser] \<and>
   map_option kind (parser (run no_messages ([json_chunk] @ [json_complete])
      (reader_with 1 None None))) = Some JsonStreamParser \<and>
   length (selections (history (run no_messages [json_chunk] (reader_with 1 None None)))) \<le> 1"
proof -
  have facts: "xhr (reader_with 1 None None :: nat XhrStreamReader) = Some (target chunk_without_headers)"
    "\<not> deferred chunk_without_headers"
    "parser (reader_with 1 None None :: nat XhrStreamReader) = None"
    "getParserByResponseHeader chunk_without_headers = None"
    "\<not> threw (onReadyStateChanged no_messages chunk_without_headers
        (reader_with 1 None None :: nat XhrStreamReader))"
    by (simp_all add: reader_defs chunk_without_headers_def deferred_def)
  have computed:
    "map_option kind (parser (run no_messages [json_chunk] (reader_with 1 None None))) =
       Some JsonStreamParser"
    "ExceptionPropagated \<notin> set (history (run no_messages [json_chunk] (reader_with 1 None None)))"
    "selections (history (run no_messages [json_chunk] (reader_with 1 None None))) =
       [Some JsonStreamParser]"
    by (simp_all add: reader_defs json_chunk_def no_messages_def)
  from decoder_selected_from_headers
         [where ev = chunk_without_headers and r = "reader_with 1 None None"
            and D = no_messages and evs = "[json_chunk]" and x = 1 and sh = None and dh = None
            and k = JsonStreamParser and later = "[json_complete]"]
       facts computed
  show ?thesis
    by simp
qed

text \<open>
  C4. The code does not do what the claim says of the number of selections. The selection
  is meant to be computed once: a reader whose selection fails is torn down in the same
  notification (lines 189-196), and the \<^verbatim>\<open>catch\<close> of \<^verbatim>\<open>readyStateChangeHandler_\<close> tears it down
  when the status handler throws. But that \<^verbatim>\<open>catch\<close> calls the status handler again, to tell
  it of \<^verbatim>\<open>HANDLER_EXCEPTION\<close>, before it calls \<^verbatim>\<open>clear_\<close> (lines 375-376): a status handler
  that throws whenever it is called makes the exception leave
  \<^verbatim>\<open>readyStateChangeHandler_\<close>, against the comment "no rethrow", and the teardown is
  skipped. The reader, without a parser, still holds its transport and still listens, and
  the next notification computes the selection a second time. The response here has text
  and no content type.
\<close>

theorem selection_computed_twice:
  "selections (history (run no_messages [chunk_without_headers]
      (reader_with 1 (Some always_throws) None))) = [None] \<and>
   ExceptionPropagated \<in> set (history (run no_messages [chunk_without_headers]
      (reader_with 1 (Some always_throws) None))) \<and>
   xhr (run no_messages [chunk_without_headers] (reader_with 1 (Some always_throws) None)) =
     Some 1 \<and>
   listening (run no_messages [chunk_without_headers] (reader_with 1 (Some always_throws) None)) \<and>
   selections (history (run no_messages [chunk_without_headers, chunk_without_headers]
      (reader_with 1 (Some always_throws) None))) = [None, None]"
  by (simp add: reader_defs chunk_without_headers_def always_throws_def)

section \<open>Exceptions\<close>

text \<open>
  C7. The code does not do what the claim says, in two places. A data handler that throws
  on delivery is caught by the \<^verbatim>\<open>try\<close> of lines 203-216, which encloses the delivery as well
  as the parsing: the status becomes \<^verbatim>\<open>BAD_DATA\<close>, not \<^verbatim>\<open>HANDLER_EXCEPTION\<close>, and the
  exception never reaches the \<^verbatim>\<open>catch\<close> of \<^verbatim>\<open>readyStateChangeHandler_\<close>. And a status
  handler that throws whenever it is called throws again when that \<^verbatim>\<open>catch\<close> tells it of
  \<^verbatim>\<open>HANDLER_EXCEPTION\<close>: the exception leaves \<^verbatim>\<open>readyStateChangeHandler_\<close> and the teardown
  does not run.
\<close>

theorem handler_exception_misreported_or_rethrown:
  "data_handler_calls (history (state_of (readyStateChangeHandler one_message json_rows
      (reader_with 1 None (Some rejects))))) = [[[7]]] \<and>
   \<not> threw (readyStateChangeHandler one_message json_rows (reader_with 1 None (Some rejects))) \<and>
   status (state_of (readyStateChangeHandler one_message json_rows
      (reader_with 1 None (Some rejects)))) = BAD_DATA \<and>
   threw (readyStateChangeHandler no_messages json_chunk
      (reader_with 1 (Some always_throws) None)) \<and>
   status (state_of (readyStateChangeHandler no_messages json_chunk
      (reader_with 1 (Some always_throws) None))) = HANDLER_EXCEPTION \<and>
   xhr (state_of (readyStateChangeHandler no_messages json_chunk
      (reader_with 1 (Some always_throws) None))) = Some 1"
  by (simp add: reader_defs json_chunk_def json_rows_def one_message_def no_messages_def
      rejects_def always_throws_def)

end
